theory Spec2Isabelle
  imports Complex_Main "HOL-Library.FuncSet"
begin

section \<open>Exceptions as values\<close>

text \<open>
  The Python exceptions the device raises, with their messages. A pure
  computation that may raise returns \<open>error + 'a\<close>.
\<close>

datatype error =
    ValueError string
  | TypeError string
  | IndexError string
  | WireError string
  | DeviceError string
  | AssertionError

definition bindE :: "error + 'a \<Rightarrow> ('a \<Rightarrow> error + 'b) \<Rightarrow> error + 'b" where
  "bindE m f = (case m of Inl e \<Rightarrow> Inl e | Inr x \<Rightarrow> f x)"

primrec mapE :: "('a \<Rightarrow> error + 'b) \<Rightarrow> 'a list \<Rightarrow> error + 'b list" where
  "mapE f [] = Inr []"
| "mapE f (x # xs) = bindE (f x) (\<lambda>y. bindE (mapE f xs) (\<lambda>ys. Inr (y # ys)))"

section \<open>Arrays of the numerical backend\<close>

text \<open>
  An array is its shape and its entries, read at a multi-index. Entries are
  exact complex numbers: rounding of the floating-point backend is not part
  of the model. Only entries at valid multi-indices are meaningful.
\<close>

record tensor =
  shape :: "nat list"
  item :: "nat list \<Rightarrow> complex"

definition valid_index :: "nat list \<Rightarrow> nat list \<Rightarrow> bool" where
  "valid_index idx shp = list_all2 (<) idx shp"

text \<open>All multi-indices of a shape, in row-major (C) order.\<close>

fun all_idx :: "nat list \<Rightarrow> nat list list" where
  "all_idx [] = [[]]"
| "all_idx (d # ds) = concat (map (\<lambda>i. map ((#) i) (all_idx ds)) [0..<d])"

fun ravel_multi_index :: "nat list \<Rightarrow> nat list \<Rightarrow> nat" where
  "ravel_multi_index (i # is) (d # ds) = i * prod_list ds + ravel_multi_index is ds"
| "ravel_multi_index _ _ = 0"

fun unravel_index :: "nat \<Rightarrow> nat list \<Rightarrow> nat list" where
  "unravel_index n [] = []"
| "unravel_index n (d # ds) = (n div prod_list ds) # unravel_index (n mod prod_list ds) ds"

definition zeros :: "nat list \<Rightarrow> tensor" where
  "zeros shp = \<lparr>shape = shp, item = (\<lambda>idx. 0)\<rparr>"

text \<open>\<open>a[idx] = v\<close> on a copy; an index out of bounds raises.\<close>

definition setitem :: "tensor \<Rightarrow> nat list \<Rightarrow> complex \<Rightarrow> error + tensor" where
  "setitem a idx v =
     (if valid_index idx (shape a) then Inr (a\<lparr>item := (item a)(idx := v)\<rparr>)
      else Inl (IndexError ''index is out of bounds''))"

text \<open>\<open>reshape\<close> keeps the row-major order of the entries.\<close>

definition reshape :: "tensor \<Rightarrow> nat list \<Rightarrow> error + tensor" where
  "reshape a newshape =
     (if prod_list (shape a) = prod_list newshape
      then Inr \<lparr>shape = newshape,
                item = (\<lambda>idx. item a (unravel_index (ravel_multi_index idx newshape) (shape a)))\<rparr>
      else Inl (ValueError ''cannot reshape array''))"

text \<open>The position of the first occurrence of \<open>x\<close> in a list.\<close>

primrec index_of :: "'a list \<Rightarrow> 'a \<Rightarrow> nat" where
  "index_of [] x = 0"
| "index_of (y # ys) x = (if y = x then 0 else Suc (index_of ys x))"

text \<open>The elements of a list, each once, in order of first occurrence.\<close>

fun unique :: "'a list \<Rightarrow> 'a list" where
  "unique [] = []"
| "unique (x # xs) = x # filter (\<lambda>y. y \<noteq> x) (unique xs)"

text \<open>Transposition by a permutation \<open>axes\<close>: axis \<open>i\<close> of the result is axis \<open>axes ! i\<close> of the argument.\<close>

definition qnp_transpose_axes :: "tensor \<Rightarrow> nat list \<Rightarrow> error + tensor" where
  "qnp_transpose_axes a axes =
     (if length axes = length (shape a) \<and> distinct axes \<and> list_all (\<lambda>x. x < length (shape a)) axes
      then Inr \<lparr>shape = map ((!) (shape a)) axes,
                item = (\<lambda>idx. item a (map (\<lambda>j. idx ! index_of axes j) [0..<length (shape a)]))\<rparr>
      else Inl (ValueError ''axes do not match array''))"

text \<open>Transposition without axes reverses the axes.\<close>

definition qnp_transpose :: "tensor \<Rightarrow> tensor" where
  "qnp_transpose a = \<lparr>shape = rev (shape a), item = (\<lambda>idx. item a (rev idx))\<rparr>"

definition qnp_conj :: "tensor \<Rightarrow> tensor" where
  "qnp_conj a = \<lparr>shape = shape a, item = (\<lambda>idx. cnj (item a idx))\<rparr>"

definition qnp_stack :: "tensor list \<Rightarrow> error + tensor" where
  "qnp_stack ts =
     (case ts of
        [] \<Rightarrow> Inl (ValueError ''need at least one array to stack'')
      | t # rest \<Rightarrow>
          if list_all (\<lambda>u. shape u = shape t) rest
          then Inr \<lparr>shape = length ts # shape t,
                    item = (\<lambda>idx. case idx of [] \<Rightarrow> 0 | i # r \<Rightarrow> item (ts ! i) r)\<rparr>
          else Inl (ValueError ''all input arrays must have the same shape''))"

text \<open>\<open>sum(a, axis=0)\<close>.\<close>

definition qnp_sum0 :: "tensor \<Rightarrow> error + tensor" where
  "qnp_sum0 a =
     (case shape a of
        [] \<Rightarrow> Inl (ValueError ''axis 0 is out of bounds'')
      | n # shp \<Rightarrow> Inr \<lparr>shape = shp, item = (\<lambda>idx. \<Sum>i\<leftarrow>[0..<n]. item a (i # idx))\<rparr>)"

subsection \<open>Labelled contraction\<close>

text \<open>
  \<open>einsum\<close> with explicit output: one list of labels per operand and the
  labels of the result. A label that is not in the output is summed over.
  The subscripts are given as lists; the commas, the arrow and the blanks of
  the subscript string are not modelled.
\<close>

definition lookup :: "('l \<times> nat) list \<Rightarrow> 'l \<Rightarrow> nat" where
  "lookup env c = (case map_of env c of Some v \<Rightarrow> v | None \<Rightarrow> 0)"

definition einsum_dims :: "'l list list \<Rightarrow> tensor list \<Rightarrow> ('l \<times> nat) list" where
  "einsum_dims subs ops = zip (concat subs) (concat (map shape ops))"

definition einsum_summed :: "'l list list \<Rightarrow> 'l list \<Rightarrow> 'l list" where
  "einsum_summed subs out = filter (\<lambda>c. c \<notin> set out) (unique (concat subs))"

definition einsum_term :: "'l list list \<Rightarrow> tensor list \<Rightarrow> ('l \<times> nat) list \<Rightarrow> complex" where
  "einsum_term subs ops env = prod_list (map2 (\<lambda>s a. item a (map (lookup env) s)) subs ops)"

definition qnp_einsum :: "'l list list \<Rightarrow> 'l list \<Rightarrow> tensor list \<Rightarrow> error + tensor" where
  "qnp_einsum subs out ops =
     (if length subs \<noteq> length ops \<or> \<not> list_all2 (\<lambda>s a. length s = length (shape a)) subs ops
      then Inl (ValueError ''einsum: operand dimensions do not match the subscripts'')
      else if \<not> list_all (\<lambda>(c, n). lookup (einsum_dims subs ops) c = n) (einsum_dims subs ops)
      then Inl (ValueError ''einsum: a label has two different sizes'')
      else if \<not> (distinct out \<and> list_all (\<lambda>c. c \<in> set (concat subs)) out)
      then Inl (ValueError ''einsum: invalid output subscripts'')
      else Inr \<lparr>shape = map (lookup (einsum_dims subs ops)) out,
                item = (\<lambda>idx. \<Sum>vals\<leftarrow>all_idx (map (lookup (einsum_dims subs ops)) (einsum_summed subs out)).
                          einsum_term subs ops (zip (out @ einsum_summed subs out) (idx @ vals)))\<rparr>)"

subsection \<open>Contraction over given axes\<close>

text \<open>
  The multi-index of an operand of rank \<open>n\<close> whose axes \<open>axs\<close> carry the
  values \<open>v\<close> and whose other axes carry, in order, the values \<open>f\<close>.
\<close>

definition place :: "nat \<Rightarrow> nat list \<Rightarrow> nat list \<Rightarrow> nat list \<Rightarrow> nat list" where
  "place n axs v f =
     map (\<lambda>j. if j \<in> set axs then v ! index_of axs j
              else f ! length (filter (\<lambda>q. q \<notin> set axs) [0..<j])) [0..<n]"

definition free_axes :: "nat \<Rightarrow> nat list \<Rightarrow> nat list" where
  "free_axes n axs = filter (\<lambda>j. j \<notin> set axs) [0..<n]"

text \<open>
  \<open>tensordot(a, b, [axa, axb])\<close>: the axes \<open>axa\<close> of \<open>a\<close> are summed against
  the axes \<open>axb\<close> of \<open>b\<close>; the result has the other axes of \<open>a\<close>, then the
  other axes of \<open>b\<close>. The sizes of the axes are compared pair by pair, from
  the tuples of the shapes: an axis that an operand does not have raises an
  \<open>IndexError\<close>, two axes of different sizes a \<open>ValueError\<close>.
\<close>

fun tensordot_axes :: "nat list \<Rightarrow> nat list \<Rightarrow> nat list \<Rightarrow> nat list \<Rightarrow> error option" where
  "tensordot_axes sa sb (x # xs) (y # ys) =
     (if x \<ge> length sa \<or> y \<ge> length sb then Some (IndexError ''tuple index out of range'')
      else if sa ! x \<noteq> sb ! y then Some (ValueError ''shape-mismatch for sum'')
      else tensordot_axes sa sb xs ys)"
| "tensordot_axes sa sb _ _ = None"

definition qnp_tensordot :: "tensor \<Rightarrow> tensor \<Rightarrow> nat list \<Rightarrow> nat list \<Rightarrow> error + tensor" where
  "qnp_tensordot a b axa axb =
     (if length axa \<noteq> length axb then Inl (ValueError ''shape-mismatch for sum'')
      else
        case tensordot_axes (shape a) (shape b) axa axb of
          Some e \<Rightarrow> Inl e
        | None \<Rightarrow>
            if distinct axa \<and> distinct axb
            then Inr \<lparr>shape = map ((!) (shape a)) (free_axes (length (shape a)) axa)
                              @ map ((!) (shape b)) (free_axes (length (shape b)) axb),
                      item = (\<lambda>idx. \<Sum>v\<leftarrow>all_idx (map ((!) (shape a)) axa).
                                item a (place (length (shape a)) axa v
                                          (take (length (free_axes (length (shape a)) axa)) idx))
                              * item b (place (length (shape b)) axb v
                                          (drop (length (free_axes (length (shape a)) axa)) idx)))\<rparr>
            else Inl (ValueError ''repeated axis in transpose''))"

text \<open>
  \<open>moveaxis(a, source, destination)\<close>: axis \<open>source ! t\<close> moves to position
  \<open>destination ! t\<close>; the other axes keep their order. A negative axis counts
  from the end.
\<close>

definition normalize_axis :: "nat \<Rightarrow> int \<Rightarrow> error + nat" where
  "normalize_axis n x =
     (if - int n \<le> x \<and> x < int n then Inr (nat (if x < 0 then x + int n else x))
      else Inl (ValueError ''axis is out of bounds''))"

definition moveaxis_order :: "nat \<Rightarrow> nat list \<Rightarrow> nat list \<Rightarrow> nat list" where
  "moveaxis_order n src dst =
     map (\<lambda>p. if p \<in> set dst then src ! index_of dst p
              else free_axes n src ! length (filter (\<lambda>q. q \<notin> set dst) [0..<p])) [0..<n]"

definition qnp_moveaxis :: "tensor \<Rightarrow> int list \<Rightarrow> int list \<Rightarrow> error + tensor" where
  "qnp_moveaxis a source destination =
     bindE (mapE (normalize_axis (length (shape a))) source) (\<lambda>src.
     bindE (mapE (normalize_axis (length (shape a))) destination) (\<lambda>dst.
       if length src = length dst \<and> distinct src \<and> distinct dst
       then qnp_transpose_axes a (moveaxis_order (length (shape a)) src dst)
       else Inl (ValueError ''moveaxis: invalid source or destination'')))"

subsection \<open>Matrices and vectors\<close>

definition flat_item :: "tensor \<Rightarrow> nat \<Rightarrow> complex" where
  "flat_item a i = item a (unravel_index i (shape a))"

text \<open>\<open>outer\<close> flattens its arguments.\<close>

definition qnp_outer :: "tensor \<Rightarrow> tensor \<Rightarrow> tensor" where
  "qnp_outer a b =
     \<lparr>shape = [prod_list (shape a), prod_list (shape b)],
      item = (\<lambda>idx. case idx of [i, j] \<Rightarrow> flat_item a i * flat_item b j | _ \<Rightarrow> 0)\<rparr>"

text \<open>The Kronecker product, of two matrices.\<close>

definition qnp_kron :: "tensor \<Rightarrow> tensor \<Rightarrow> error + tensor" where
  "qnp_kron a b =
     (case (shape a, shape b) of
        ([ra, ca], [rb, cb]) \<Rightarrow>
          Inr \<lparr>shape = [ra * rb, ca * cb],
               item = (\<lambda>idx. case idx of
                         [i, j] \<Rightarrow> item a [i div rb, j div cb] * item b [i mod rb, j mod cb]
                       | _ \<Rightarrow> 0)\<rparr>
      | _ \<Rightarrow> Inl (ValueError ''kron: the arguments are not matrices''))"

definition qnp_diagonal :: "tensor \<Rightarrow> error + tensor" where
  "qnp_diagonal a =
     (case shape a of
        [r, c] \<Rightarrow> Inr \<lparr>shape = [min r c],
                       item = (\<lambda>idx. case idx of [i] \<Rightarrow> item a [i, i] | _ \<Rightarrow> 0)\<rparr>
      | _ \<Rightarrow> Inl (ValueError ''diag requires an array of at least two dimensions''))"

definition qnp_trace :: "tensor \<Rightarrow> error + complex" where
  "qnp_trace a =
     (case shape a of
        [r, c] \<Rightarrow> Inr (\<Sum>i\<leftarrow>[0..<min r c]. item a [i, i])
      | _ \<Rightarrow> Inl (ValueError ''trace requires a matrix''))"

text \<open>
  \<open>allclose(a, b, atol=tolerance)\<close> with the default relative tolerance
  \<open>1e-05\<close> of the backend and \<open>tolerance = 1e-10\<close>.
\<close>

definition tolerance :: real where
  "tolerance = 1 / 10 ^ 10"

definition qnp_allclose :: "complex \<Rightarrow> complex \<Rightarrow> real \<Rightarrow> bool" where
  "qnp_allclose a b atol = (cmod (a - b) \<le> atol + (1 / 10 ^ 5) * cmod b)"

text \<open>
  \<open>scatter(indices, array, [n])\<close>: a vector of \<open>n\<close> zeros with \<open>array[i]\<close> at
  position \<open>indices[i]\<close>; of two equal positions the later one wins.
\<close>

definition qnp_scatter :: "nat list \<Rightarrow> tensor \<Rightarrow> nat \<Rightarrow> tensor" where
  "qnp_scatter indices array n =
     \<lparr>shape = [n],
      item = (\<lambda>idx. case idx of
                [j] \<Rightarrow> (case map_of (rev (zip indices [0..<length indices])) j of
                          Some i \<Rightarrow> flat_item array i | None \<Rightarrow> 0)
              | _ \<Rightarrow> 0)\<rparr>"

text \<open>
  Modelled from the spec: \<open>reduce_dm\<close> of the mathematics library, the
  partial trace of the matrix-form state of \<open>n\<close> wires over the complement
  of \<open>indices\<close>, the wires of the result in the order of \<open>indices\<close>.
\<close>

definition reduce_dm :: "nat \<Rightarrow> tensor \<Rightarrow> nat list \<Rightarrow> error + tensor" where
  "reduce_dm n dm indices =
     (if shape dm = [2 ^ n, 2 ^ n] \<and> distinct indices \<and> list_all (\<lambda>x. x < n) indices
      then Inr \<lparr>shape = [2 ^ length indices, 2 ^ length indices],
                item = (\<lambda>idx. case idx of
                   [i, j] \<Rightarrow>
                     (\<Sum>t\<leftarrow>all_idx (replicate (n - length indices) 2).
                        item dm
                          [ravel_multi_index
                             (place n indices (unravel_index i (replicate (length indices) 2)) t)
                             (replicate n 2),
                           ravel_multi_index
                             (place n indices (unravel_index j (replicate (length indices) 2)) t)
                             (replicate n 2)])
                 | _ \<Rightarrow> 0)\<rparr>
      else Inl (ValueError ''reduce_dm: invalid density matrix or indices''))"

section \<open>Wires, operations and measurement processes\<close>

text \<open>A wire label is a number or a string.\<close>

datatype label = IntLabel int | StrLabel string

text \<open>
  The classes of measurement process the device inspects with \<open>isinstance\<close>.
  \<open>DensityMatrixMP\<close> is a subclass of \<open>StateMP\<close>.
\<close>

datatype mp_class =
    StateMP | DensityMatrixMP | PurityMP | ProbabilityMP | ExpectationMP
  | VarianceMP | VnEntropyMP | MutualInfoMP | SampleMP | CountsMP

definition isinstance_StateMP :: "mp_class \<Rightarrow> bool" where
  "isinstance_StateMP c = (c = StateMP \<or> c = DensityMatrixMP)"

text \<open>
  An operation as the dispatcher sees it: the state preparations, the
  snapshot, and every other operation by the data \<open>_get_kraus\<close> reads from
  it: the eigenvalues of an operation in \<open>diagonal_in_z_basis\<close>, the Kraus
  matrices of a \<open>Channel\<close>, the matrix of any other gate. A measurement
  process carries its class, wires, diagonalizing gates, the eigenvalues of
  its observable, its logarithm base and its raw wires.
\<close>

datatype operation =
    Identity "label list"
  | StatePrep tensor "label list"
  | BasisState "int list" "label list"
  | QubitDensityMatrix tensor "label list"
  | Snapshot "string option" measurement
  | DiagonalGate tensor "label list"
  | ChannelOp "tensor list" "label list"
  | Gate tensor "label list"
and measurement =
    MP mp_class "label list" "operation list" "real list" "real option" "label list list"

primrec mp_cls :: "measurement \<Rightarrow> mp_class" where
  "mp_cls (MP c ws gs ev b rw) = c"

primrec mp_wires :: "measurement \<Rightarrow> label list" where
  "mp_wires (MP c ws gs ev b rw) = ws"

section \<open>The device\<close>

datatype snap_key = TagKey string | IntKey nat

text \<open>
  What a snapshot records. The purity and the entropies are computed by
  functions of the mathematics library, kept here as the call and its
  arguments.
\<close>

datatype snap_result =
    SnapDM tensor
  | SnapPurity tensor "nat list"
  | SnapProbs "real list option"
  | SnapScalar real
  | SnapVnEntropy tensor "nat list" "real option"
  | SnapMutualInfo tensor "nat list" "nat list" "real option"

record debugger =
  active :: bool
  snapshots :: "(snap_key \<times> snap_result) list"

record device =
  wires :: "label list"
  readout_err :: "real option"
  s_state :: "tensor option"
  s_pre_rotated_state :: "tensor option"
  measured_wires :: "label list"
  s_debugger :: "debugger option"

definition num_wires :: "device \<Rightarrow> nat" where
  "num_wires d = length (wires d)"

text \<open>
  A method that mutates the device either returns, with the device as it
  left it (\<open>Inr\<close>), or raises, with the exception and the device as it was
  when the exception left the method (\<open>Inl\<close>).
\<close>

type_synonym outcome = "(error \<times> device) + device"

text \<open>
  Modelled from the spec: the wire map of the device (the method
  \<open>map_wires\<close> of the base class), an injective mapping from the wire labels
  to the indices \<open>0..N-1\<close> fixed at construction; a label the device does
  not have raises.
\<close>

definition map_wires :: "device \<Rightarrow> label list \<Rightarrow> error + nat list" where
  "map_wires d ws =
     (if list_all (\<lambda>w. w \<in> set (wires d)) ws then Inr (map (index_of (wires d)) ws)
      else Inl (WireError ''wire not found on device''))"

definition create_basis_state :: "device \<Rightarrow> nat \<Rightarrow> error + tensor" where
  "create_basis_state d index =
     bindE (setitem (zeros [2 ^ num_wires d, 2 ^ num_wires d]) [index, index] 1)
       (\<lambda>rho. reshape rho (replicate (2 * num_wires d) 2))"

subsection \<open>Construction\<close>

text \<open>
  The \<open>wires\<close> argument is a number of wires or a list of labels (or absent,
  for the new interface). A number of wires is a Python \<open>int\<close> or an integer
  of NumPy, which is not an instance of \<open>int\<close>. The \<open>readout_prob\<close> argument
  is \<open>None\<close>, an integer, a float, or a value of another type.
\<close>

datatype wires_arg = WiresNone | WiresInt int | WiresNpInt int | WiresList "label list"

datatype prob_arg = ProbNone | ProbInt int | ProbFloat real | ProbOther

fun prob_value :: "prob_arg \<Rightarrow> real option" where
  "prob_value (ProbInt i) = Some (real_of_int i)"
| "prob_value (ProbFloat x) = Some x"
| "prob_value _ = None"

text \<open>
  The checks both constructors make before anything else. The first is
  \<open>isinstance(wires, int) and wires > 23\<close>.
\<close>

definition init_checks :: "wires_arg \<Rightarrow> prob_arg \<Rightarrow> error + real option" where
  "init_checks w p =
     (if (case w of WiresInt n \<Rightarrow> n > 23 | _ \<Rightarrow> False)
      then Inl (ValueError ''This device does not currently support computations on more than 23 wires'')
      else if p = ProbNone then Inr None
      else if p = ProbOther
      then Inl (TypeError ''The readout error probability should be an integer or a floating-point number in [0,1].'')
      else if the (prob_value p) < 0 \<or> the (prob_value p) > 1
      then Inl (ValueError ''The readout error probability should be in the range [0,1].'')
      else Inr (prob_value p))"

text \<open>
  Modelled from the spec: the wires the base class constructor stores, the
  labels \<open>0..n-1\<close> for a wire count and the given labels, which must be
  unique, for a list.
\<close>

fun base_wires :: "wires_arg \<Rightarrow> error + label list" where
  "base_wires (WiresInt n) = Inr (map (\<lambda>i. IntLabel (int i)) [0..<nat n])"
| "base_wires (WiresNpInt n) = Inr (map (\<lambda>i. IntLabel (int i)) [0..<nat n])"
| "base_wires (WiresList ls) =
     (if distinct ls then Inr ls else Inl (WireError ''Wires must be unique''))"
| "base_wires WiresNone = Inl (TypeError ''wires must be given'')"

definition DefaultMixed_init :: "wires_arg \<Rightarrow> prob_arg \<Rightarrow> error + device" where
  "DefaultMixed_init w p =
     bindE (init_checks w p) (\<lambda>re.
     bindE (base_wires w) (\<lambda>ws.
       let d = \<lparr>wires = ws, readout_err = re, s_state = None, s_pre_rotated_state = None,
                measured_wires = [], s_debugger = None\<rparr>
       in bindE (create_basis_state d 0) (\<lambda>rho.
            Inr (d\<lparr>s_state := Some rho, s_pre_rotated_state := Some rho\<rparr>))))"

text \<open>The device of the new interface keeps no state tensor.\<close>

record new_device =
  nd_wires :: "label list option"
  nd_readout_err :: "real option"

definition DefaultMixedNewAPI_init :: "wires_arg \<Rightarrow> prob_arg \<Rightarrow> error + new_device" where
  "DefaultMixedNewAPI_init w p =
     bindE (init_checks w p) (\<lambda>re.
       case w of
         WiresNone \<Rightarrow> Inr \<lparr>nd_wires = None, nd_readout_err = re\<rparr>
       | _ \<Rightarrow> bindE (base_wires w) (\<lambda>ws. Inr \<lparr>nd_wires = Some ws, nd_readout_err = re\<rparr>))"

subsection \<open>The wires subject to readout error\<close>

text \<open>Python truth value of \<open>self.readout_err\<close>: \<open>None\<close> and zero are false.\<close>

definition truthy :: "real option \<Rightarrow> bool" where
  "truthy r = (case r of None \<Rightarrow> False | Some x \<Rightarrow> x \<noteq> 0)"

text \<open>\<open>Wires.all_wires\<close>: the labels of all the lists, each once, in order of first occurrence.\<close>

definition all_wires :: "label list list \<Rightarrow> label list" where
  "all_wires wss = unique (concat wss)"

text \<open>
  The loop of \<open>execute\<close> over the measurements, with the list \<open>wires_list\<close>
  collected so far: the value it leaves in \<open>measured_wires\<close>.
\<close>

fun scan_measurements :: "device \<Rightarrow> measurement list \<Rightarrow> label list list \<Rightarrow> label list" where
  "scan_measurements d [] wires_list = all_wires wires_list"
| "scan_measurements d (m # ms) wires_list =
     (if isinstance_StateMP (mp_cls m) then []
      else if (mp_cls m = SampleMP \<or> mp_cls m = CountsMP) \<and> (mp_wires m = [] \<or> mp_wires m = wires d)
      then wires d
      else if mp_cls m = VnEntropyMP \<or> mp_cls m = MutualInfoMP
      then scan_measurements d ms wires_list
      else scan_measurements d ms (wires_list @ [mp_wires m]))"

text \<open>
  \<open>execute\<close> sets \<open>measured_wires\<close> and hands over to the \<open>execute\<close> of the base
  class, here the parameter \<open>super_execute\<close>.
\<close>

definition execute :: "(device \<Rightarrow> measurement list \<Rightarrow> 'r) \<Rightarrow> device \<Rightarrow> measurement list \<Rightarrow> 'r" where
  "execute super_execute d measurements =
     (if truthy (readout_err d)
      then super_execute (d\<lparr>measured_wires := scan_measurements d measurements []\<rparr>) measurements
      else super_execute d measurements)"

text \<open>
  The wires subject to readout error as the specification words them: none
  if any measurement is a state measurement; all device wires if any sample
  or counts measurement is over the whole register or without wires;
  otherwise the wires of all measurements but the entropies.
\<close>

definition full_register_sample :: "device \<Rightarrow> measurement \<Rightarrow> bool" where
  "full_register_sample d m =
     ((mp_cls m = SampleMP \<or> mp_cls m = CountsMP) \<and> (mp_wires m = [] \<or> mp_wires m = wires d))"

definition entropy_mp :: "measurement \<Rightarrow> bool" where
  "entropy_mp m = (mp_cls m = VnEntropyMP \<or> mp_cls m = MutualInfoMP)"

definition measured_wires_spec :: "device \<Rightarrow> measurement list \<Rightarrow> label list" where
  "measured_wires_spec d ms =
     (if list_ex (\<lambda>m. isinstance_StateMP (mp_cls m)) ms then []
      else if list_ex (full_register_sample d) ms then wires d
      else all_wires (map mp_wires (filter (\<lambda>m. \<not> entropy_mp m) ms)))"

text \<open>
  The circuits the loop of \<open>execute\<close> assumes: a state measurement is the only
  measurement of its circuit.
\<close>

definition state_measured_alone :: "measurement list \<Rightarrow> bool" where
  "state_measured_alone ms =
     (list_ex (\<lambda>m. isinstance_StateMP (mp_cls m)) ms \<longrightarrow> length ms = 1)"

subsection \<open>Queries of the state\<close>

definition raiseE :: "device \<Rightarrow> error \<Rightarrow> outcome" where
  "raiseE d e = Inl (e, d)"

text \<open>A pure computation inside a method: its exception leaves the device as it is.\<close>

definition tryE :: "device \<Rightarrow> error + 'a \<Rightarrow> ('a \<Rightarrow> (error \<times> device) + 'b) \<Rightarrow> (error \<times> device) + 'b" where
  "tryE d m f = (case m of Inl e \<Rightarrow> Inl (e, d) | Inr x \<Rightarrow> f x)"

text \<open>
  The functions of the backend turn their arguments into arrays: \<open>None\<close>
  becomes an array without axes.
\<close>

definition asarray :: "tensor option \<Rightarrow> tensor" where
  "asarray a = (case a of None \<Rightarrow> \<lparr>shape = [], item = (\<lambda>idx. 0)\<rparr> | Some t \<Rightarrow> t)"

text \<open>The property \<open>state\<close>: the pre-rotated state as a matrix.\<close>

definition state :: "device \<Rightarrow> error + tensor" where
  "state d = reshape (asarray (s_pre_rotated_state d)) [2 ^ num_wires d, 2 ^ num_wires d]"

definition density_matrix :: "device \<Rightarrow> label list \<Rightarrow> error + tensor" where
  "density_matrix d ws =
     bindE (state d) (\<lambda>st.
     bindE (map_wires d ws) (\<lambda>w. reduce_dm (num_wires d) st w))"

text \<open>
  Modelled from the spec: \<open>marginal_prob\<close> of the base class, which sums the
  probabilities over the wires that are not selected; without wires it
  returns its argument.
\<close>

definition marginal_prob :: "device \<Rightarrow> tensor \<Rightarrow> label list option \<Rightarrow> error + tensor" where
  "marginal_prob d prob ws =
     (case ws of
        None \<Rightarrow> Inr prob
      | Some ws \<Rightarrow>
          bindE (map_wires d ws) (\<lambda>dw.
            if distinct dw
            then Inr \<lparr>shape = [2 ^ length dw],
                      item = (\<lambda>idx. case idx of
                         [j] \<Rightarrow>
                           (\<Sum>t\<leftarrow>all_idx (replicate (num_wires d - length dw) 2).
                              item prob
                                [ravel_multi_index
                                   (place (num_wires d) dw (unravel_index j (replicate (length dw) 2)) t)
                                   (replicate (num_wires d) 2)])
                       | _ \<Rightarrow> 0)\<rparr>
            else Inl (WireError ''Wires must be unique'')))"

definition analytic_probability :: "device \<Rightarrow> label list option \<Rightarrow> error + real list option" where
  "analytic_probability d ws =
     (case s_state d of
        None \<Rightarrow> Inr None
      | Some st \<Rightarrow>
          bindE (reshape st [2 ^ num_wires d, 2 ^ num_wires d]) (\<lambda>rho.
          bindE (qnp_diagonal rho) (\<lambda>diag.
          bindE (marginal_prob d diag ws) (\<lambda>probs.
            Inr (Some (map (\<lambda>i. let p = Re (flat_item probs i) in if p < 0 then - p else p)
                         [0..<prod_list (shape probs)]))))))"

subsection \<open>Application of channels\<close>

datatype kraus = Eigvals tensor | Matrices "tensor list"

text \<open>\<open>_get_kraus\<close>, read for the operations that reach it.\<close>

fun get_kraus :: "operation \<Rightarrow> kraus" where
  "get_kraus (DiagonalGate ev ws) = Eigvals ev"
| "get_kraus (ChannelOp ks ws) = Matrices ks"
| "get_kraus (Gate u ws) = Matrices [u]"
| "get_kraus _ = Matrices []"

definition ABC :: string where
  "ABC = ''abcdefghijklmnopqrstuvwxyzABCDEFGHIJKLMNOPQRSTUVWXYZ''"

text \<open>The slice \<open>s[a:b]\<close> of a string.\<close>

definition slice :: "'a list \<Rightarrow> nat \<Rightarrow> nat \<Rightarrow> 'a list" where
  "slice s a b = take (b - a) (drop a s)"

text \<open>\<open>ABC_ARRAY[ws]\<close>: indexing by a list of positions; a position past the end raises.\<close>

definition ABC_ARRAY_getitem :: "nat list \<Rightarrow> error + string" where
  "ABC_ARRAY_getitem ws =
     (if list_all (\<lambda>w. w < length ABC) ws then Inr (map ((!) ABC) ws)
      else Inl (IndexError ''index is out of bounds''))"

text \<open>\<open>old_string.replace(c, d)\<close> for single characters.\<close>

definition replace :: "'a list \<Rightarrow> 'a \<times> 'a \<Rightarrow> 'a list" where
  "replace old_string idx_pair = map (\<lambda>x. if x = fst idx_pair then snd idx_pair else x) old_string"

definition apply_channel :: "device \<Rightarrow> tensor list \<Rightarrow> label list \<Rightarrow> outcome" where
  "apply_channel d kraus ws =
     tryE d (map_wires d ws) (\<lambda>channel_wires.
       let rho_dim = 2 * num_wires d;
           num_ch_wires = length channel_wires;
           kraus_dagger = map (\<lambda>k. qnp_conj (qnp_transpose k)) kraus
       in
       tryE d (qnp_stack kraus) (\<lambda>kraus.
       tryE d (qnp_stack kraus_dagger) (\<lambda>kraus_dagger.
         let kraus_shape = hd (shape kraus) # replicate (num_ch_wires * 2) 2 in
         tryE d (reshape kraus kraus_shape) (\<lambda>kraus.
         tryE d (reshape kraus_dagger kraus_shape) (\<lambda>kraus_dagger.
           let state_indices = take rho_dim ABC in
           tryE d (ABC_ARRAY_getitem channel_wires) (\<lambda>row_indices.
           tryE d (ABC_ARRAY_getitem (map (\<lambda>w. w + num_wires d) channel_wires)) (\<lambda>col_indices.
             let new_row_indices = slice ABC rho_dim (rho_dim + num_ch_wires);
                 new_col_indices = slice ABC (rho_dim + num_ch_wires) (rho_dim + 2 * num_ch_wires);
                 kraus_index = slice ABC (rho_dim + 2 * num_ch_wires) (rho_dim + 2 * num_ch_wires + 1);
                 new_state_indices =
                   foldl replace state_indices
                     (zip (col_indices @ row_indices) (new_col_indices @ new_row_indices))
             in
             tryE d (qnp_einsum
                       [kraus_index @ new_row_indices @ row_indices,
                        state_indices,
                        kraus_index @ col_indices @ new_col_indices]
                       new_state_indices
                       [kraus, asarray (s_state d), kraus_dagger])
               (\<lambda>res. Inr (d\<lparr>s_state := Some res\<rparr>)))))))))"

definition conjugate_state_with :: "tensor \<Rightarrow> nat list list \<Rightarrow> nat list list \<Rightarrow> tensor \<Rightarrow> error + tensor" where
  "conjugate_state_with st axes_left axes_right k =
     bindE (qnp_tensordot k st (axes_left ! 0) (axes_left ! 1)) (\<lambda>l.
       qnp_tensordot l (qnp_conj k) (axes_right ! 0) (axes_right ! 1))"

definition apply_channel_tensordot :: "device \<Rightarrow> tensor list \<Rightarrow> label list \<Rightarrow> outcome" where
  "apply_channel_tensordot d kraus ws =
     tryE d (map_wires d ws) (\<lambda>channel_wires.
       let num_ch_wires = length channel_wires;
           kraus_shape = replicate (num_ch_wires * 2) 2
       in
       tryE d (mapE (\<lambda>k. reshape k kraus_shape) kraus) (\<lambda>kraus.
         let row_wires_list = channel_wires;
             col_wires_list = map (\<lambda>w. w + num_wires d) row_wires_list;
             channel_col_ids = [num_ch_wires..<2 * num_ch_wires];
             axes_left = [channel_col_ids, row_wires_list];
             axes_right = [col_wires_list, channel_col_ids]
         in
         tryE d (if length kraus = 1
                 then conjugate_state_with (asarray (s_state d)) axes_left axes_right (kraus ! 0)
                 else bindE (mapE (conjugate_state_with (asarray (s_state d)) axes_left axes_right) kraus)
                        (\<lambda>ts. bindE (qnp_stack ts) qnp_sum0))
           (\<lambda>new_state.
              let source_left = map int [0..<num_ch_wires];
                  dest_left = map int row_wires_list;
                  source_right = map (\<lambda>i. int i - int num_ch_wires) [0..<num_ch_wires];
                  dest_right = map int col_wires_list
              in
              tryE d (qnp_moveaxis new_state (source_left @ source_right) (dest_left @ dest_right))
                (\<lambda>res. Inr (d\<lparr>s_state := Some res\<rparr>)))))"

text \<open>\<open>stack\<close> of the one-dimensional array of eigenvalues gives the array back.\<close>

definition apply_diagonal_unitary :: "device \<Rightarrow> tensor \<Rightarrow> label list \<Rightarrow> outcome" where
  "apply_diagonal_unitary d eigvals ws =
     tryE d (map_wires d ws) (\<lambda>channel_wires.
     tryE d (reshape eigvals (replicate (length channel_wires) 2)) (\<lambda>eigvals.
       let state_indices = take (2 * num_wires d) ABC in
       tryE d (ABC_ARRAY_getitem channel_wires) (\<lambda>row_indices.
       tryE d (ABC_ARRAY_getitem (map (\<lambda>w. w + num_wires d) channel_wires)) (\<lambda>col_indices.
         tryE d (qnp_einsum [row_indices, state_indices, col_indices] state_indices
                   [eigvals, asarray (s_state d), qnp_conj eigvals])
           (\<lambda>res. Inr (d\<lparr>s_state := Some res\<rparr>))))))"

subsection \<open>The channel as the specification states it\<close>

text \<open>
  The specification of the channel engine: \<open>\<rho>' = \<Sum>\<^sub>i K\<^sub>i \<rho> K\<^sub>i\<^sup>\<dagger>\<close>, where \<open>K\<^sub>i\<close>
  acts on the row axes of the wires \<open>W\<close> and its adjoint on the column axes,
  the row axes shifted by the number \<open>N\<close> of wires. Written for one entry
  of the tensor: the values \<open>a\<close> replace the entries of the multi-index at
  the row axes of \<open>W\<close>, the values \<open>b\<close> those at the column axes, and the
  entries at every other axis stay.
\<close>

definition sub_index :: "nat list \<Rightarrow> nat list \<Rightarrow> nat list" where
  "sub_index idx axs = map ((!) idx) axs"

definition put_index :: "nat \<Rightarrow> nat list \<Rightarrow> nat list \<Rightarrow> nat list \<Rightarrow> nat list \<Rightarrow> nat list" where
  "put_index N W a b idx =
     map (\<lambda>p. if p \<in> set W then a ! index_of W p
              else if p \<in> set (map (\<lambda>w. w + N) W) then b ! index_of (map (\<lambda>w. w + N) W) p
              else idx ! p) [0..<2 * N]"

text \<open>The number whose binary digits, most significant first, are the list.\<close>

definition bits_index :: "nat list \<Rightarrow> nat" where
  "bits_index v = ravel_multi_index v (replicate (length v) 2)"

definition kraus_conjugation :: "nat \<Rightarrow> nat list \<Rightarrow> tensor list \<Rightarrow> tensor \<Rightarrow> nat list \<Rightarrow> complex" where
  "kraus_conjugation N W Ks rho idx =
     (\<Sum>K\<leftarrow>Ks. \<Sum>a\<leftarrow>all_idx (replicate (length W) 2). \<Sum>b\<leftarrow>all_idx (replicate (length W) 2).
        item K [bits_index (sub_index idx W), bits_index a]
        * item rho (put_index N W a b idx)
        * cnj (item K [bits_index (sub_index idx (map (\<lambda>w. w + N) W)), bits_index b]))"

text \<open>The same for a diagonal operator, given by its eigenvalues.\<close>

definition diagonal_conjugation :: "nat \<Rightarrow> nat list \<Rightarrow> tensor \<Rightarrow> tensor \<Rightarrow> nat list \<Rightarrow> complex" where
  "diagonal_conjugation N W eigvals rho idx =
     item eigvals [bits_index (sub_index idx W)]
     * item rho idx
     * cnj (item eigvals [bits_index (sub_index idx (map (\<lambda>w. w + N) W))])"

subsection \<open>State preparation\<close>

definition apply_basis_state :: "device \<Rightarrow> int list \<Rightarrow> label list \<Rightarrow> outcome" where
  "apply_basis_state d st ws =
     tryE d (map_wires d ws) (\<lambda>device_wires.
       let n_basis_state = length st in
       if \<not> list_all (\<lambda>b. b = 0 \<or> b = 1) st
       then raiseE d (ValueError ''BasisState parameter must consist of 0 or 1 integers.'')
       else if n_basis_state \<noteq> length device_wires
       then raiseE d (ValueError ''BasisState parameter and wires must be of equal length.'')
       else
         let basis_states = map (\<lambda>w. (2::int) ^ (num_wires d - 1 - w)) device_wires;
             num = nat (\<Sum>(b, p)\<leftarrow>zip st basis_states. b * p)
         in tryE d (create_basis_state d num) (\<lambda>rho. Inr (d\<lparr>s_state := Some rho\<rparr>)))"

text \<open>The rows of \<open>unravelled_indices\<close>: zeros, with a basis state written at the device wires.\<close>

definition unravelled_row :: "nat \<Rightarrow> nat list \<Rightarrow> nat list \<Rightarrow> nat list" where
  "unravelled_row n device_wires bs = foldl (\<lambda>u (w, b). u[w := b]) (replicate n 0) (zip device_wires bs)"

definition vector_norm :: "tensor \<Rightarrow> real" where
  "vector_norm v = sqrt (\<Sum>i\<leftarrow>[0..<prod_list (shape v)]. (cmod (flat_item v i))\<^sup>2)"

definition apply_state_vector :: "device \<Rightarrow> tensor \<Rightarrow> label list \<Rightarrow> outcome" where
  "apply_state_vector d st ws =
     tryE d (map_wires d ws) (\<lambda>device_wires.
       case shape st of
         [] \<Rightarrow> raiseE d (IndexError ''tuple index out of range'')
       | n_state_vector # rest \<Rightarrow>
           if rest \<noteq> [] \<or> n_state_vector \<noteq> 2 ^ length device_wires
           then raiseE d (ValueError ''State vector must be of length 2**wires.'')
           else if \<not> qnp_allclose (complex_of_real (vector_norm st)) 1 tolerance
           then raiseE d (ValueError ''Sum of amplitudes-squared does not equal one.'')
           else if length device_wires = num_wires d \<and> sort device_wires = device_wires
           then tryE d (reshape (qnp_outer st (qnp_conj st)) (replicate (2 * num_wires d) 2))
                  (\<lambda>rho. Inr (d\<lparr>s_state := Some rho\<rparr>))
           else
             let basis_states = all_idx (replicate (length device_wires) 2);
                 unravelled_indices = map (unravelled_row (num_wires d) device_wires) basis_states;
                 ravelled_indices =
                   map (\<lambda>u. ravel_multi_index u (replicate (num_wires d) 2)) unravelled_indices;
                 st = qnp_scatter ravelled_indices st (2 ^ num_wires d)
             in tryE d (reshape (qnp_outer st (qnp_conj st)) (replicate (2 * num_wires d) 2))
                  (\<lambda>rho. Inr (d\<lparr>s_state := Some rho\<rparr>)))"

text \<open>
  The loop of \<open>_apply_density_matrix\<close> that builds the axes of the
  transposition, for the device wires \<open>i = 0, ..., N-1\<close>.
\<close>

definition left_axes :: "nat \<Rightarrow> nat list \<Rightarrow> nat list \<Rightarrow> nat list" where
  "left_axes n device_wires complement_wires =
     concat (map (\<lambda>i. if i \<in> set device_wires then [length complement_wires + index_of device_wires i]
                      else if i \<in> set complement_wires then [index_of complement_wires i]
                      else []) [0..<n])"

definition right_axes :: "nat \<Rightarrow> nat list \<Rightarrow> nat list \<Rightarrow> nat list" where
  "right_axes n device_wires complement_wires =
     concat (map (\<lambda>i. if i \<in> set device_wires then [length complement_wires + index_of device_wires i + n]
                      else if i \<in> set complement_wires then [index_of complement_wires i + n]
                      else []) [0..<n])"

definition apply_density_matrix :: "device \<Rightarrow> tensor \<Rightarrow> label list \<Rightarrow> outcome" where
  "apply_density_matrix d st ws =
     tryE d (map_wires d ws) (\<lambda>device_wires.
     tryE d (reshape st [prod_list (shape st)]) (\<lambda>st.
       let state_dim = 2 ^ length device_wires;
           dm_dim = state_dim ^ 2
       in
       if dm_dim \<noteq> hd (shape st)
       then raiseE d (ValueError ''Density matrix must be of length (2**wires, 2**wires)'')
       else
         tryE d (reshape st [state_dim, state_dim]) (\<lambda>mat.
         tryE d (qnp_trace mat) (\<lambda>tr.
           if \<not> qnp_allclose tr 1 tolerance
           then raiseE d (ValueError ''Trace of density matrix is not equal one.'')
           else if length device_wires = num_wires d \<and> sort device_wires = device_wires
           then tryE d (reshape st (replicate (2 * num_wires d) 2))
                  (\<lambda>rho. Inr (d\<lparr>s_state := Some rho, s_pre_rotated_state := Some rho\<rparr>))
           else
             let complement_wires = filter (\<lambda>i. i \<notin> set device_wires) [0..<num_wires d] in
             tryE d (density_matrix d (map (\<lambda>i. IntLabel (int i)) complement_wires)) (\<lambda>sigma.
             tryE d (qnp_kron sigma mat) (\<lambda>rho.
             tryE d (reshape rho (replicate (2 * num_wires d) 2)) (\<lambda>rho.
               let transpose_axes = left_axes (num_wires d) device_wires complement_wires
                                    @ right_axes (num_wires d) device_wires complement_wires
               in
               tryE d (qnp_transpose_axes rho transpose_axes) (\<lambda>rho.
               tryE d (reshape rho [2 ^ num_wires d, 2 ^ num_wires d]) (\<lambda>m.
               tryE d (qnp_trace m) (\<lambda>tr.
                 if \<not> qnp_allclose tr 1 tolerance then raiseE d AssertionError
                 else Inr (d\<lparr>s_state := Some rho, s_pre_rotated_state := Some rho\<rparr>)))))))))))"

subsection \<open>Snapshots and the dispatcher\<close>

text \<open>
  The interface of the arrays at hand is found by the mathematics library;
  the dispatcher takes that function as the parameter \<open>get_interface\<close>.
\<close>

datatype interface = Numpy | Autograd | Torch | Jax | Tensorflow

text \<open>
  Modelled from the spec: the text that Python prints for the class of a
  measurement, \<open><class 'module.name'>\<close>. The classes are not among the
  sources; their modules are those of the package \<open>pennylane.measurements\<close>.
\<close>

definition class_module :: "mp_class \<Rightarrow> string" where
  "class_module c =
     (case c of StateMP \<Rightarrow> ''state'' | DensityMatrixMP \<Rightarrow> ''state''
      | PurityMP \<Rightarrow> ''purity'' | ProbabilityMP \<Rightarrow> ''probs''
      | ExpectationMP \<Rightarrow> ''expval'' | VarianceMP \<Rightarrow> ''var''
      | VnEntropyMP \<Rightarrow> ''vn_entropy'' | MutualInfoMP \<Rightarrow> ''mutual_info''
      | SampleMP \<Rightarrow> ''sample'' | CountsMP \<Rightarrow> ''counts'')"

definition class_name :: "mp_class \<Rightarrow> string" where
  "class_name c =
     (case c of StateMP \<Rightarrow> ''StateMP'' | DensityMatrixMP \<Rightarrow> ''DensityMatrixMP''
      | PurityMP \<Rightarrow> ''PurityMP'' | ProbabilityMP \<Rightarrow> ''ProbabilityMP''
      | ExpectationMP \<Rightarrow> ''ExpectationMP'' | VarianceMP \<Rightarrow> ''VarianceMP''
      | VnEntropyMP \<Rightarrow> ''VnEntropyMP'' | MutualInfoMP \<Rightarrow> ''MutualInfoMP''
      | SampleMP \<Rightarrow> ''SampleMP'' | CountsMP \<Rightarrow> ''CountsMP'')"

definition type_repr :: "mp_class \<Rightarrow> string" where
  "type_repr c =
     ''<class 'pennylane.measurements.'' @ class_module c @ ''.'' @ class_name c @ [CHR 0x27, CHR ''>'']"

text \<open>\<open>_dot\<close> of the probabilities and a vector of the same length.\<close>

definition dot :: "real list option \<Rightarrow> real list \<Rightarrow> error + real" where
  "dot probs ev =
     (case probs of
        None \<Rightarrow> Inl (TypeError ''unsupported operand: None'')
      | Some ps \<Rightarrow>
          if length ps = length ev then Inr (\<Sum>(p, e)\<leftarrow>zip ps ev. p * e)
          else Inl (ValueError ''shapes not aligned''))"

text \<open>The result of a snapshot measurement, read from the device after the rotations.\<close>

definition snap_value ::
  "device \<Rightarrow> tensor \<Rightarrow> mp_class \<Rightarrow> label list \<Rightarrow> real list \<Rightarrow> real option \<Rightarrow> label list list
     \<Rightarrow> error + snap_result" where
  "snap_value d dm c meas_wires ev base raw_wires =
     (if c = StateMP \<or> c = DensityMatrixMP
      then bindE (map_wires d meas_wires) (\<lambda>w.
           bindE (reduce_dm (num_wires d) dm w) (\<lambda>r. Inr (SnapDM r)))
      else if c = PurityMP
      then bindE (map_wires d meas_wires) (\<lambda>w. Inr (SnapPurity dm w))
      else if c = ProbabilityMP
      then bindE (analytic_probability d (Some meas_wires)) (\<lambda>p. Inr (SnapProbs p))
      else if c = ExpectationMP
      then bindE (analytic_probability d (Some meas_wires)) (\<lambda>p.
           bindE (dot p ev) (\<lambda>x. Inr (SnapScalar x)))
      else if c = VarianceMP
      then bindE (analytic_probability d (Some meas_wires)) (\<lambda>p.
           bindE (dot p (map (\<lambda>e. e ^ 2) ev)) (\<lambda>x.
           bindE (dot p ev) (\<lambda>y. Inr (SnapScalar (x - y ^ 2)))))
      else if c = VnEntropyMP
      then bindE (map_wires d meas_wires) (\<lambda>w. Inr (SnapVnEntropy dm w base))
      else if c = MutualInfoMP
      then bindE (mapE (map_wires d) raw_wires) (\<lambda>wl.
             case wl of
               [wires0, wires1] \<Rightarrow> Inr (SnapMutualInfo dm wires0 wires1 base)
             | _ \<Rightarrow> Inl (ValueError ''not enough or too many values to unpack''))
      else Inl (DeviceError (''Snapshots of '' @ type_repr c @ '' are not yet supported on default.mixed'')))"

text \<open>\<open>snapshots[key] = value\<close> on the dictionary of the debugger.\<close>

definition dict_set :: "'k \<Rightarrow> 'v \<Rightarrow> ('k \<times> 'v) list \<Rightarrow> ('k \<times> 'v) list" where
  "dict_set k v xs =
     (if k \<in> fst ` set xs then map (\<lambda>(k', v'). if k' = k then (k, v) else (k', v')) xs
      else xs @ [(k, v)])"

definition use_tensordot :: "nat \<Rightarrow> interface \<Rightarrow> bool" where
  "use_tensordot num_op_wires interface =
     ((num_op_wires > 2 \<and> (interface = Autograd \<or> interface = Numpy)) \<or> num_op_wires > 7)"

fun apply_operation :: "(tensor list \<Rightarrow> interface) \<Rightarrow> device \<Rightarrow> operation \<Rightarrow> outcome"
and snapshot_measurements ::
  "(tensor list \<Rightarrow> interface) \<Rightarrow> device \<Rightarrow> tensor \<Rightarrow> measurement \<Rightarrow> (error \<times> device) + (snap_result \<times> device)"
and apply_operations :: "(tensor list \<Rightarrow> interface) \<Rightarrow> device \<Rightarrow> operation list \<Rightarrow> outcome"
where
  "apply_operation gi d (Identity ws) = Inr d"
| "apply_operation gi d (StatePrep v ws) = apply_state_vector d v ws"
| "apply_operation gi d (BasisState b ws) = apply_basis_state d b ws"
| "apply_operation gi d (QubitDensityMatrix m ws) = apply_density_matrix d m ws"
| "apply_operation gi d (Snapshot tag measurement) =
     (case s_debugger d of
        None \<Rightarrow> Inr d
      | Some dbg \<Rightarrow>
          if \<not> active dbg then Inr d
          else
            tryE d (reshape (asarray (s_state d)) [2 ^ num_wires d, 2 ^ num_wires d]) (\<lambda>dm.
              case snapshot_measurements gi d dm measurement of
                Inl x \<Rightarrow> Inl x
              | Inr (snapshot_result, d') \<Rightarrow>
                  (case s_debugger d' of
                     None \<Rightarrow> Inr d'
                   | Some dbg' \<Rightarrow>
                       Inr (d'\<lparr>s_debugger := Some (dbg'\<lparr>snapshots :=
                         dict_set
                           (case tag of
                              None \<Rightarrow> IntKey (length (snapshots dbg'))
                            | Some t \<Rightarrow> if t = [] then IntKey (length (snapshots dbg')) else TagKey t)
                           snapshot_result (snapshots dbg')\<rparr>)\<rparr>))))"
| "apply_operation gi d (DiagonalGate ev ws) = apply_diagonal_unitary d ev ws"
| "apply_operation gi d (ChannelOp ks ws) =
     (if use_tensordot (length ws) (gi (case s_state d of None \<Rightarrow> ks | Some st \<Rightarrow> st # ks))
      then apply_channel_tensordot d ks ws
      else apply_channel d ks ws)"
| "apply_operation gi d (Gate u ws) =
     (if use_tensordot (length ws) (gi (case s_state d of None \<Rightarrow> [u] | Some st \<Rightarrow> [st, u]))
      then apply_channel_tensordot d [u] ws
      else apply_channel d [u] ws)"
| "snapshot_measurements gi d dm (MP c ws gates ev base raw_wires) =
     (let meas_wires = (if ws = [] then wires d else ws);
          pre_rotated_state = s_state d
      in
      case (if c = ProbabilityMP \<or> c = ExpectationMP \<or> c = VarianceMP
            then apply_operations gi d gates else Inr d) of
        Inl x \<Rightarrow> Inl x
      | Inr d1 \<Rightarrow>
          tryE d1 (snap_value d1 dm c meas_wires ev base raw_wires) (\<lambda>snap_result.
            Inr (snap_result,
                 d1\<lparr>s_state := pre_rotated_state, s_pre_rotated_state := pre_rotated_state\<rparr>)))"
| "apply_operations gi d [] = Inr d"
| "apply_operations gi d (operation # rest) =
     (case apply_operation gi d operation of
        Inl x \<Rightarrow> Inl x
      | Inr d' \<Rightarrow> apply_operations gi d' rest)"

subsection \<open>Applying a circuit\<close>

text \<open>
  Modelled from the spec: the Kraus matrices of the bit-flip channel with
  probability \<open>p\<close> on one wire, \<open>sqrt(1 - p) I\<close> and \<open>sqrt(p) X\<close>.
\<close>

definition BitFlip :: "real \<Rightarrow> label \<Rightarrow> operation" where
  "BitFlip p w =
     ChannelOp
       [\<lparr>shape = [2, 2], item = (\<lambda>idx. case idx of [i, j] \<Rightarrow> if i = j then complex_of_real (sqrt (1 - p)) else 0 | _ \<Rightarrow> 0)\<rparr>,
        \<lparr>shape = [2, 2], item = (\<lambda>idx. case idx of [i, j] \<Rightarrow> if i \<noteq> j then complex_of_real (sqrt p) else 0 | _ \<Rightarrow> 0)\<rparr>]
       [w]"

definition order_error :: "string \<Rightarrow> error" where
  "order_error name =
     DeviceError (''Operation '' @ name @ '' cannot be used after other Operations have already been applied on a default.mixed device.'')"

text \<open>
  \<open>isinstance(operation, (StatePrep, BasisState))\<close>, with the name of the
  operation when it holds.
\<close>

fun prep_name :: "operation \<Rightarrow> string option" where
  "prep_name (StatePrep v ws) = Some ''StatePrep''"
| "prep_name (BasisState b ws) = Some ''BasisState''"
| "prep_name _ = None"

text \<open>The first loop of \<open>apply\<close>: the check of the order, at position \<open>i\<close>.\<close>

fun check_order :: "nat \<Rightarrow> operation list \<Rightarrow> error option" where
  "check_order i [] = None"
| "check_order i (operation # rest) =
     (case prep_name operation of
        Some name \<Rightarrow> if i > 0 then Some (order_error name) else check_order (Suc i) rest
      | None \<Rightarrow> check_order (Suc i) rest)"

definition device_apply ::
  "(tensor list \<Rightarrow> interface) \<Rightarrow> device \<Rightarrow> operation list \<Rightarrow> operation list \<Rightarrow> outcome" where
  "device_apply gi d operations rotations =
     (case check_order 0 operations of
        Some e \<Rightarrow> raiseE d e
      | None \<Rightarrow>
          (case apply_operations gi d operations of
             Inl x \<Rightarrow> Inl x
           | Inr d1 \<Rightarrow>
               (case apply_operations gi (d1\<lparr>s_pre_rotated_state := s_state d1\<rparr>) rotations of
                  Inl x \<Rightarrow> Inl x
                | Inr d2 \<Rightarrow>
                    if truthy (readout_err d2)
                    then apply_operations gi d2
                           (map (BitFlip (the (readout_err d2))) (measured_wires d2))
                    else Inr d2)))"

subsection \<open>The state as a matrix\<close>

text \<open>
  The entry of row \<open>i\<close> and column \<open>j\<close> of the state of \<open>N\<close> wires read as a
  matrix, and the row that has the bits of \<open>j\<close> on the wires \<open>dw\<close> and the bits
  \<open>t\<close> on the other wires.
\<close>

definition matrix_entry :: "nat \<Rightarrow> tensor \<Rightarrow> nat \<Rightarrow> nat \<Rightarrow> complex" where
  "matrix_entry N rho i j = item rho (unravel_index (i * 2 ^ N + j) (replicate (2 * N) 2))"

definition marginal_index :: "nat \<Rightarrow> nat list \<Rightarrow> nat \<Rightarrow> nat list \<Rightarrow> nat" where
  "marginal_index N dw j t =
     ravel_multi_index (place N dw (unravel_index j (replicate (length dw) 2)) t) (replicate N 2)"

section \<open>Inputs of the examples\<close>

definition wire :: "int \<Rightarrow> label" where
  "wire i = IntLabel i"

definition labels24 :: "label list" where
  "labels24 = map wire [0, 1, 2, 3, 4, 5, 6, 7, 8, 9, 10, 11, 12, 13, 14, 15, 16, 17, 18, 19, 20, 21, 22, 23]"

definition labels25 :: "label list" where
  "labels25 = labels24 @ [wire 24]"

text \<open>A device with the wires \<open>ws\<close>, the readout error \<open>re\<close> and no state yet.\<close>

definition bare_device :: "label list \<Rightarrow> real option \<Rightarrow> device" where
  "bare_device ws re =
     \<lparr>wires = ws, readout_err = re, s_state = None, s_pre_rotated_state = None,
      measured_wires = [], s_debugger = None\<rparr>"

definition sample_all :: measurement where
  "sample_all = MP SampleMP [] [] [] None []"

definition state_mp :: measurement where
  "state_mp = MP StateMP [] [] [] None []"

definition expval_on :: "label list \<Rightarrow> measurement" where
  "expval_on ws = MP ExpectationMP ws [] [1, -1] None []"

definition numpy_interface :: "tensor list \<Rightarrow> interface" where
  "numpy_interface ts = Numpy"

definition torch_interface :: "tensor list \<Rightarrow> interface" where
  "torch_interface ts = Torch"

text \<open>A matrix given by its rows.\<close>

definition matrix_of :: "complex list list \<Rightarrow> tensor" where
  "matrix_of rows =
     \<lparr>shape = [length rows, length (hd rows)],
      item = (\<lambda>idx. case idx of [i, j] \<Rightarrow> rows ! i ! j | _ \<Rightarrow> 0)\<rparr>"

definition vector_of :: "complex list \<Rightarrow> tensor" where
  "vector_of xs = \<lparr>shape = [length xs], item = (\<lambda>idx. case idx of [i] \<Rightarrow> xs ! i | _ \<Rightarrow> 0)\<rparr>"

definition pauli_x :: tensor where
  "pauli_x = matrix_of [[0, 1], [1, 0]]"

text \<open>The device as the constructor leaves it, for a number of wires.\<close>

definition fresh_device :: "nat \<Rightarrow> device" where
  "fresh_device n =
     (case DefaultMixed_init (WiresInt (int n)) ProbNone of
        Inr d \<Rightarrow> d
      | Inl e \<Rightarrow> bare_device [] None)"

text \<open>The Toffoli gate, a gate on three wires.\<close>

definition toffoli :: tensor where
  "toffoli = \<lparr>shape = [8, 8],
     item = (\<lambda>idx. case idx of
        [i, j] \<Rightarrow> if (i = j \<and> i < 6) \<or> (i = 6 \<and> j = 7) \<or> (i = 7 \<and> j = 6) then 1 else 0
      | _ \<Rightarrow> 0)\<rparr>"

text \<open>A device of one wire in the state \<open>|+\<rangle>\<langle>+|\<close>, and the eigenvalues of Pauli Z.\<close>

definition plus_device :: device where
  "plus_device = (fresh_device 1)\<lparr>s_state := Some (matrix_of [[1 / 2, 1 / 2], [1 / 2, 1 / 2]])\<rparr>"

definition pauli_z_eigvals :: tensor where
  "pauli_z_eigvals = vector_of [1, - 1]"

text \<open>The projector \<open>|0\<rangle>\<langle>0|\<close> of one wire.\<close>

definition ket0 :: tensor where
  "ket0 = matrix_of [[1, 0], [0, 0]]"

text \<open>The device as the constructor leaves it, with an active debugger that has recorded nothing.\<close>

definition debug_device :: "nat \<Rightarrow> device" where
  "debug_device n = (fresh_device n)\<lparr>s_debugger := Some \<lparr>active = True, snapshots = []\<rparr>\<rparr>"

text \<open>
  A snapshot of an expectation value on wire 0 whose diagonalising gate is
  Pauli X, with the eigenvalues 1 and -1.
\<close>

definition expval_rotated :: measurement where
  "expval_rotated = MP ExpectationMP [wire 0] [Gate pauli_x [wire 0]] [1, - 1] None []"

text \<open>
  The index of the basis state as the specification states it: the sum of
  \<open>bits[i] * 2^(N - 1 - device_wire[i])\<close>.
\<close>

definition basis_index :: "nat \<Rightarrow> nat list \<Rightarrow> int list \<Rightarrow> nat" where
  "basis_index N dw bits = nat (\<Sum>(b, w)\<leftarrow>zip bits dw. b * 2 ^ (N - 1 - w))"

text \<open>
  What a method leaves behind: the error it raised, or the working tensor
  and the pre-rotation reference of the device.
\<close>

definition tensors_after :: "outcome \<Rightarrow> error + tensor option \<times> tensor option" where
  "tensors_after r = map_sum fst (\<lambda>d. (s_state d, s_pre_rotated_state d)) r"

section \<open>Auxiliary notions of the proofs\<close>

text \<open>The assignment of values to labels that a list of labels and a list of values give.\<close>

definition envf :: "'l list \<Rightarrow> nat list \<Rightarrow> 'l \<Rightarrow> nat" where
  "envf ls vals = (\<lambda>c. if c \<in> set ls then vals ! index_of ls c else undefined)"

text \<open>The simultaneous replacement of the labels \<open>olds\<close> by the labels \<open>news\<close>.\<close>

definition subst_label :: "'a list \<Rightarrow> 'a list \<Rightarrow> 'a \<Rightarrow> 'a" where
  "subst_label olds news p = (if p \<in> set olds then news ! index_of olds p else p)"

section \<open>Lemmas on the backend\<close>

lemma set_unique: "set (unique xs) = set xs"
  by (induction xs) auto

lemma bindE_Inr [simp]: "bindE (Inr x) f = f x" by (simp add: bindE_def)
lemma bindE_Inl [simp]: "bindE (Inl e) f = Inl e" by (simp add: bindE_def)
lemma tryE_Inr [simp]: "tryE d (Inr x) f = f x" by (simp add: tryE_def)
lemma tryE_Inl [simp]: "tryE d (Inl e) f = Inl (e, d)" by (simp add: tryE_def)
lemma asarray_Some [simp]: "asarray (Some t) = t" by (simp add: asarray_def)

lemma valid_index_length: "valid_index idx shp \<Longrightarrow> length idx = length shp"
  by (simp add: valid_index_def list_all2_lengthD)

lemma valid_index_Cons [simp]: "valid_index (i # is) (d # ds) \<longleftrightarrow> i < d \<and> valid_index is ds"
  by (simp add: valid_index_def)

lemma valid_index_Nil [simp]: "valid_index [] []"
  by (simp add: valid_index_def)

lemma valid_index_Nil1 [simp]: "valid_index [] (d # ds) = False" "valid_index (i # is) [] = False"
  by (simp_all add: valid_index_def)

lemma valid_index_append:
  "length a = length sa \<Longrightarrow> valid_index (a @ b) (sa @ sb) \<longleftrightarrow> valid_index a sa \<and> valid_index b sb"
  by (simp add: valid_index_def list_all2_append)

lemma ravel_lt: "valid_index idx shp \<Longrightarrow> ravel_multi_index idx shp < prod_list shp"
proof (induction idx shp rule: ravel_multi_index.induct)
  case (1 i "is" d ds)
  then have i: "i < d" and r: "ravel_multi_index is ds < prod_list ds" by auto
  have "i * prod_list ds + ravel_multi_index is ds < i * prod_list ds + prod_list ds"
    using r by simp
  also have "\<dots> = (Suc i) * prod_list ds" by simp
  also have "\<dots> \<le> d * prod_list ds" using i by (intro mult_le_mono1) simp
  finally show ?case by simp
qed (auto simp: valid_index_def)

lemma unravel_ravel: "valid_index idx shp \<Longrightarrow> unravel_index (ravel_multi_index idx shp) shp = idx"
proof (induction idx shp rule: ravel_multi_index.induct)
  case (1 i "is" d ds)
  then have v: "valid_index is ds" by simp
  from ravel_lt [OF v] have r: "ravel_multi_index is ds < prod_list ds" .
  with 1 v show ?case by simp
qed (auto simp: valid_index_def)

lemma ravel_append:
  "length a = length sa \<Longrightarrow>
   ravel_multi_index (a @ b) (sa @ sb) = ravel_multi_index a sa * prod_list sb + ravel_multi_index b sb"
  by (induction a sa rule: ravel_multi_index.induct) (auto simp: algebra_simps)

lemma valid_unravel: "n < prod_list shp \<Longrightarrow> valid_index (unravel_index n shp) shp"
proof (induction shp arbitrary: n)
  case Nil then show ?case by simp
next
  case (Cons d ds)
  then have pos: "0 < prod_list ds" by (cases "prod_list ds = 0") auto
  have "n div prod_list ds < d" using Cons.prems pos
    by (simp add: less_mult_imp_div_less mult.commute)
  moreover have "n mod prod_list ds < prod_list ds" using pos by simp
  ultimately show ?case using Cons.IH by simp
qed

lemma ravel_unravel: "n < prod_list shp \<Longrightarrow> ravel_multi_index (unravel_index n shp) shp = n"
proof (induction shp arbitrary: n)
  case Nil then show ?case by simp
next
  case (Cons d ds)
  then have pos: "0 < prod_list ds" by (cases "prod_list ds = 0") auto
  then show ?case using Cons.IH [of "n mod prod_list ds"] by simp
qed

lemma index_of_nth: "distinct xs \<Longrightarrow> i < length xs \<Longrightarrow> index_of xs (xs ! i) = i"
proof (induction xs arbitrary: i)
  case Nil then show ?case by simp
next
  case (Cons x xs)
  then show ?case by (cases i) auto
qed

lemma index_of_lt: "x \<in> set xs \<Longrightarrow> index_of xs x < length xs"
  by (induction xs) auto

lemma nth_index_of: "x \<in> set xs \<Longrightarrow> xs ! index_of xs x = x"
  by (induction xs) auto

lemma index_of_map_inj:
  "inj_on f (insert x (set xs)) \<Longrightarrow> index_of (map f xs) (f x) = index_of xs x"
proof (induction xs)
  case Nil then show ?case by simp
next
  case (Cons y ys)
  then have "inj_on f (insert x (set ys))" by (auto simp: inj_on_def)
  moreover have "(f y = f x) = (y = x)" using Cons.prems by (auto simp: inj_on_def)
  ultimately show ?case using Cons.IH by simp
qed

lemma index_of_append:
  "index_of (xs @ ys) x = (if x \<in> set xs then index_of xs x else length xs + index_of ys x)"
  by (induction xs) auto

lemma index_of_upt: "a \<le> p \<Longrightarrow> p < b \<Longrightarrow> index_of [a..<b] p = p - a"
  using index_of_nth [of "[a..<b]" "p - a"] by simp

lemma distinct_unique: "distinct (unique xs)"
  by (induction xs) (auto simp: set_unique)

lemma unique_map: "inj_on f (set xs) \<Longrightarrow> unique (map f xs) = map f (unique xs)"
proof (induction xs)
  case Nil then show ?case by simp
next
  case (Cons x xs)
  then have inj: "inj_on f (set xs)" by (auto simp: inj_on_def)
  have "filter (\<lambda>y. y \<noteq> f x) (map f (unique xs)) = map f (filter (\<lambda>y. y \<noteq> x) (unique xs))"
    unfolding filter_map o_def
    by (rule arg_cong [where f = "map f"], rule filter_cong) (use Cons.prems in \<open>auto simp: inj_on_def set_unique\<close>)
  with Cons.IH [OF inj] show ?case by simp
qed

lemma map_of_zip_index:
  "distinct ks \<Longrightarrow> length ks = length vs \<Longrightarrow> c \<in> set ks \<Longrightarrow>
   map_of (zip ks vs) c = Some (vs ! index_of ks c)"
proof (induction ks arbitrary: vs)
  case Nil then show ?case by simp
next
  case (Cons k ks)
  then obtain v vs' where vs: "vs = v # vs'" by (cases vs) auto
  with Cons show ?case by auto
qed

lemma lookup_zip:
  "distinct ks \<Longrightarrow> length ks = length vs \<Longrightarrow> c \<in> set ks \<Longrightarrow> lookup (zip ks vs) c = vs ! index_of ks c"
  by (simp add: lookup_def map_of_zip_index)

lemma lookup_append:
  "lookup (xs @ ys) c = (if c \<in> fst ` set xs then lookup xs c else lookup ys c)"
  by (auto simp: lookup_def map_add_def split: option.splits dest: map_of_SomeD weak_map_of_SomeI)
    (metis domI domIff map_of_eq_None_iff option.distinct(1))+

lemma lookup_env:
  assumes "distinct (out @ summed)" "length idx = length out" "length vals = length summed"
  shows "lookup (zip (out @ summed) (idx @ vals)) c =
           (if c \<in> set out then idx ! index_of out c
            else if c \<in> set summed then vals ! index_of summed c else 0)"
proof -
  have z: "zip (out @ summed) (idx @ vals) = zip out idx @ zip summed vals"
    using assms by simp
  have f: "fst ` set (zip out idx) = set out"
    using assms by (simp flip: set_map)
  show ?thesis
  proof (cases "c \<in> set out")
    case True
    then show ?thesis using assms by (simp add: z lookup_append f lookup_zip)
  next
    case False
    show ?thesis
    proof (cases "c \<in> set summed")
      case True
      then show ?thesis using assms False by (simp add: z lookup_append f lookup_zip)
    next
      case False
      then have "map_of (zip summed vals) c = None"
        using assms by (simp add: map_of_zip_is_None)
      then have "lookup (zip summed vals) c = 0"
        by (simp add: lookup_def)
      with \<open>c \<notin> set out\<close> False show ?thesis
        by (simp add: z lookup_append f)
    qed
  qed
qed

lemma sum_list_concat_map:
  fixes f :: "'a \<Rightarrow> 'b::monoid_add"
  shows "sum_list (map f (concat xss)) = sum_list (map (\<lambda>xs. sum_list (map f xs)) xss)"
  by (induction xss) auto

lemma sum_all_idx_Cons:
  "(\<Sum>v\<leftarrow>all_idx (d # ds). G v) = (\<Sum>i\<leftarrow>[0..<d]. \<Sum>v\<leftarrow>all_idx ds. G (i # v))"
  by (simp add: sum_list_concat_map o_def)

lemma sum_all_idx_append:
  "(\<Sum>v\<leftarrow>all_idx (ds1 @ ds2). G v) = (\<Sum>a\<leftarrow>all_idx ds1. \<Sum>b\<leftarrow>all_idx ds2. G (a @ b))"
proof (induction ds1 arbitrary: G)
  case Nil then show ?case by simp
next
  case (Cons d ds1)
  have "(\<Sum>v\<leftarrow>all_idx ((d # ds1) @ ds2). G v) = (\<Sum>i\<leftarrow>[0..<d]. \<Sum>v\<leftarrow>all_idx (ds1 @ ds2). G (i # v))"
    using sum_all_idx_Cons [of G d "ds1 @ ds2"] by simp
  also have "\<dots> = (\<Sum>i\<leftarrow>[0..<d]. \<Sum>a\<leftarrow>all_idx ds1. \<Sum>b\<leftarrow>all_idx ds2. G (i # a @ b))"
    by (simp add: Cons.IH)
  also have "\<dots> = (\<Sum>a\<leftarrow>all_idx (d # ds1). \<Sum>b\<leftarrow>all_idx ds2. G (a @ b))"
    using sum_all_idx_Cons [of "\<lambda>a. \<Sum>b\<leftarrow>all_idx ds2. G (a @ b)" d ds1] by simp
  finally show ?case .
qed

lemma envf_Cons: "l \<notin> set ls \<Longrightarrow> envf (l # ls) (i # vals) = (envf ls vals)(l := i)"
  by (auto simp: envf_def fun_eq_iff)

lemma env_sum:
  fixes F :: "('l \<Rightarrow> nat) \<Rightarrow> complex"
  shows "distinct ls \<Longrightarrow>
    (\<Sum>vals\<leftarrow>all_idx (map sz ls). F (envf ls vals)) = (\<Sum>e\<in>Pi\<^sub>E (set ls) (\<lambda>c. {..<sz c}). F e)"
proof (induction ls arbitrary: F)
  case Nil
  show ?case by (simp add: envf_def)
next
  case (Cons l ls)
  then have l: "l \<notin> set ls" and d: "distinct ls" by auto
  let ?P = "Pi\<^sub>E (set ls) (\<lambda>c. {..<sz c})"
  have "(\<Sum>vals\<leftarrow>all_idx (map sz (l # ls)). F (envf (l # ls) vals))
        = (\<Sum>i\<leftarrow>[0..<sz l]. \<Sum>vals\<leftarrow>all_idx (map sz ls). F ((envf ls vals)(l := i)))"
    using sum_all_idx_Cons [of "\<lambda>v. F (envf (l # ls) v)" "sz l" "map sz ls"]
    by (simp add: envf_Cons [OF l])
  also have "\<dots> = (\<Sum>i\<leftarrow>[0..<sz l]. \<Sum>e\<in>?P. F (e(l := i)))"
    using Cons.IH [OF d, of "\<lambda>e. F (e(l := _))"] by simp
  also have "\<dots> = (\<Sum>i\<in>{..<sz l}. \<Sum>e\<in>?P. F (e(l := i)))"
    by (simp add: interv_sum_list_conv_sum_set_nat atLeast0LessThan)
  also have "\<dots> = (\<Sum>(i, e)\<in>{..<sz l} \<times> ?P. F (e(l := i)))"
    by (simp add: sum.cartesian_product)
  also have "\<dots> = (\<Sum>e\<in>(\<lambda>(i, e). e(l := i)) ` ({..<sz l} \<times> ?P). F e)"
    using inj_combinator [OF l, of "\<lambda>c. {..<sz c}"]
    by (simp add: sum.reindex case_prod_unfold o_def)
  also have "\<dots> = (\<Sum>e\<in>Pi\<^sub>E (set (l # ls)) (\<lambda>c. {..<sz c}). F e)"
    by (simp add: PiE_insert_eq)
  finally show ?case .
qed

lemma lookup_map_inj:
  "inj_on f (insert c (fst ` set xs)) \<Longrightarrow> lookup (map (\<lambda>(k, v). (f k, v)) xs) (f c) = lookup xs c"
proof (induction xs)
  case Nil then show ?case by (simp add: lookup_def)
next
  case (Cons x xs)
  obtain k v where x: "x = (k, v)" by (cases x)
  from Cons.prems have inj: "inj_on f (insert c (fst ` set xs))" by (auto simp: inj_on_def)
  from Cons.prems x have eq: "(f k = f c) = (k = c)" by (auto simp: inj_on_def)
  from Cons.IH [OF inj] eq x show ?case by (auto simp: lookup_def)
qed

lemma einsum_dims_map:
  "einsum_dims (map (map f) subs) ops = map (\<lambda>(k, v). (f k, v)) (einsum_dims subs ops)"
  by (simp add: einsum_dims_def map_concat [symmetric] zip_map1 del: map_concat)

lemma einsum_dims_keys: "fst ` set (einsum_dims subs ops) \<subseteq> set (concat subs)"
  unfolding einsum_dims_def by (auto dest: set_zip_leftD)

lemma einsum_summed_map:
  assumes "inj_on f (set (concat subs) \<union> set out)"
  shows "einsum_summed (map (map f) subs) (map f out) = map f (einsum_summed subs out)"
proof -
  have inj1: "inj_on f (set (concat subs))" using assms by (auto simp: inj_on_def)
  have "unique (concat (map (map f) subs)) = map f (unique (concat subs))"
    using unique_map [OF inj1] by (simp add: map_concat)
  moreover have "filter (\<lambda>c. c \<notin> set (map f out)) (map f (unique (concat subs)))
      = map f (filter (\<lambda>c. c \<notin> set out) (unique (concat subs)))"
    unfolding filter_map o_def
    by (rule arg_cong [where f = "map f"], rule filter_cong)
       (use assms in \<open>auto simp: inj_on_def set_unique\<close>)
  ultimately show ?thesis by (simp add: einsum_summed_def)
qed

lemma einsum_summed_subset: "set (einsum_summed subs out) \<subseteq> set (concat subs)"
  by (auto simp: einsum_summed_def set_unique)

lemma einsum_term_map:
  assumes inj: "inj_on f (set (concat subs) \<union> set ks)"
  shows "einsum_term (map (map f) subs) ops (zip (map f ks) vs) = einsum_term subs ops (zip ks vs)"
proof -
  have env: "zip (map f ks) vs = map (\<lambda>(k, v). (f k, v)) (zip ks vs)"
    by (simp add: zip_map1)
  have lk: "lookup (zip (map f ks) vs) (f c) = lookup (zip ks vs) c" if "c \<in> set (concat subs)" for c
  proof -
    have "fst ` set (zip ks vs) \<subseteq> set ks" by (auto dest: set_zip_leftD)
    with that have "insert c (fst ` set (zip ks vs)) \<subseteq> set (concat subs) \<union> set ks"
      by blast
    then have "inj_on f (insert c (fst ` set (zip ks vs)))"
      by (rule inj_on_subset [OF inj])
    from lookup_map_inj [OF this] show ?thesis by (simp add: env)
  qed
  define E' where "E' = zip (map f ks) vs"
  define E where "E = zip ks vs"
  have lk': "lookup E' (f c) = lookup E c"
    if "p \<in> set (zip subs ops)" "c \<in> set (fst p)" for p c
  proof -
    from that(1) have "fst p \<in> set subs"
      using set_zip_leftD [of "fst p" "snd p" subs ops] by simp
    with that have "c \<in> set (concat subs)" by auto
    then show ?thesis unfolding E'_def E_def by (rule lk)
  qed
  have "map2 (\<lambda>s a. item a (map (lookup E') s)) (map (map f) subs) ops
      = map2 (\<lambda>s a. item a (map (lookup E) s)) subs ops"
    by (simp add: zip_map1 o_def case_prod_unfold lk' cong: map_cong)
  then show ?thesis by (simp add: einsum_term_def E'_def E_def)
qed

lemma einsum_relabel:
  assumes inj: "inj_on f (set (concat subs) \<union> set out)"
  shows "qnp_einsum (map (map f) subs) (map f out) ops = qnp_einsum subs out ops"
proof -
  let ?D = "einsum_dims subs ops"
  let ?D' = "einsum_dims (map (map f) subs) ops"
  let ?S = "einsum_summed subs out"
  have lkD: "lookup ?D' (f c) = lookup ?D c" if "c \<in> set (concat subs) \<union> set out" for c
  proof -
    from that einsum_dims_keys [of subs ops]
    have "insert c (fst ` set ?D) \<subseteq> set (concat subs) \<union> set out"
      by blast
    then have "inj_on f (insert c (fst ` set ?D))"
      by (rule inj_on_subset [OF inj])
    from lookup_map_inj [OF this] show ?thesis by (simp add: einsum_dims_map)
  qed
  have c1: "list_all2 (\<lambda>s a. length s = length (shape a)) (map (map f) subs) ops
          = list_all2 (\<lambda>s a. length s = length (shape a)) subs ops"
    by (simp add: list_all2_map1)
  have c2: "list_all (\<lambda>(c, n). lookup ?D' c = n) ?D' = list_all (\<lambda>(c, n). lookup ?D c = n) ?D"
    unfolding list_all_iff
  proof safe
    fix c n assume a: "\<forall>x\<in>set ?D'. case x of (c, n) \<Rightarrow> lookup ?D' c = n" and m: "(c, n) \<in> set ?D"
    from m have "(f c, n) \<in> set ?D'" by (force simp: einsum_dims_map)
    with a have "lookup ?D' (f c) = n" by auto
    moreover from m einsum_dims_keys [of subs ops] have "c \<in> set (concat subs)" by force
    ultimately show "lookup ?D c = n" by (simp add: lkD)
  next
    fix c' n assume a: "\<forall>x\<in>set ?D. case x of (c, n) \<Rightarrow> lookup ?D c = n" and m: "(c', n) \<in> set ?D'"
    from m obtain c where c: "c' = f c" "(c, n) \<in> set ?D" by (auto simp: einsum_dims_map)
    with a have "lookup ?D c = n" by auto
    moreover from c einsum_dims_keys [of subs ops] have "c \<in> set (concat subs)" by force
    ultimately show "lookup ?D' c' = n" using c by (simp add: lkD)
  qed
  have inj_out: "inj_on f (set out)" using inj by (auto simp: inj_on_def)
  have c3a: "distinct (map f out) = distinct out"
    by (simp add: distinct_map inj_out)
  have c3b: "list_all (\<lambda>c. c \<in> set (concat (map (map f) subs))) (map f out)
           = list_all (\<lambda>c. c \<in> set (concat subs)) out"
  proof -
    have "(f c \<in> f ` set (concat subs)) = (c \<in> set (concat subs))" if "c \<in> set out" for c
      using that inj by (auto simp: inj_on_def)
    then show ?thesis
      by (auto simp: list_all_iff map_concat [symmetric] simp del: map_concat)
  qed
  have sm: "einsum_summed (map (map f) subs) (map f out) = map f ?S"
    by (rule einsum_summed_map [OF inj])
  have sh: "map (lookup ?D') (map f out) = map (lookup ?D) out"
    by (auto simp: lkD)
  have "\<And>c. c \<in> set ?S \<Longrightarrow> c \<in> set (concat subs) \<union> set out"
    using einsum_summed_subset [of subs out] by blast
  then have sd: "map (lookup ?D') (map f ?S) = map (lookup ?D) ?S"
    using lkD by simp
  have "set (concat subs) \<union> set (out @ ?S) \<subseteq> set (concat subs) \<union> set out"
    using einsum_summed_subset [of subs out] by auto
  then have inj2: "inj_on f (set (concat subs) \<union> set (out @ ?S))"
    by (rule inj_on_subset [OF inj])
  have tm: "einsum_term (map (map f) subs) ops (zip (map f out @ map f ?S) vs)
          = einsum_term subs ops (zip (out @ ?S) vs)" for vs
    using einsum_term_map [OF inj2, of ops vs] by simp
  show ?thesis
    unfolding qnp_einsum_def sm
    by (simp only: length_map c1 c2 c3a c3b sh sd tm)
qed

lemma length_ABC: "length ABC = 52"
  by (simp add: ABC_def)

lemma distinct_ABC: "distinct ABC"
  by (simp add: ABC_def)

lemma inj_on_ABC: "inj_on ((!) ABC) {..<52}"
  by (rule inj_on_nth [OF distinct_ABC]) (simp add: length_ABC)

lemma take_nth: "n \<le> length xs \<Longrightarrow> take n xs = map ((!) xs) [0..<n]"
  by (rule nth_equalityI) auto

lemma slice_nth: "b \<le> length xs \<Longrightarrow> slice xs a b = map ((!) xs) [a..<b]"
  unfolding slice_def by (rule nth_equalityI) auto

lemma ABC_ARRAY_getitem_ok:
  "\<forall>w\<in>set ws. w < 52 \<Longrightarrow> ABC_ARRAY_getitem ws = Inr (map ((!) ABC) ws)"
  by (simp add: ABC_ARRAY_getitem_def length_ABC list_all_iff)

lemma replace_map:
  "inj_on f (insert a (set xs)) \<Longrightarrow> replace (map f xs) (f a, f b) = map f (replace xs (a, b))"
  by (auto simp: replace_def inj_on_def)

lemma set_replace: "set (replace xs (a, b)) \<subseteq> insert b (set xs)"
  by (auto simp: replace_def)

lemma foldl_replace_map:
  "inj_on f (set xs \<union> set as \<union> set bs) \<Longrightarrow>
   foldl replace (map f xs) (zip (map f as) (map f bs)) = map f (foldl replace xs (zip as bs))"
proof (induction as arbitrary: xs bs)
  case Nil then show ?case by simp
next
  case (Cons a as)
  show ?case
  proof (cases bs)
    case Nil then show ?thesis by simp
  next
    case (Cons b bs')
    have sub1: "insert a (set xs) \<subseteq> set xs \<union> set (a # as) \<union> set bs" by auto
    have r: "replace (map f xs) (f a, f b) = map f (replace xs (a, b))"
      by (rule replace_map, rule inj_on_subset [OF Cons.prems sub1])
    have sub2: "set (replace xs (a, b)) \<union> set as \<union> set bs' \<subseteq> set xs \<union> set (a # as) \<union> set bs"
      using set_replace [of xs a b] Cons by auto
    have "inj_on f (set (replace xs (a, b)) \<union> set as \<union> set bs')"
      by (rule inj_on_subset [OF Cons.prems sub2])
    from Cons.IH [OF this] r Cons show ?thesis by simp
  qed
qed

lemma foldl_replace_subst:
  "distinct olds \<Longrightarrow> length news = length olds \<Longrightarrow> set news \<inter> set olds = {} \<Longrightarrow>
   foldl replace xs (zip olds news) = map (subst_label olds news) xs"
proof (induction olds arbitrary: news xs)
  case Nil then show ?case by (simp add: subst_label_def)
next
  case (Cons a olds)
  then obtain b news' where news: "news = b # news'" by (cases news) auto
  with Cons.prems have d: "distinct olds" and l: "length news' = length olds"
    and i: "set news' \<inter> set olds = {}" and b: "b \<notin> set olds" "b \<noteq> a" and a: "a \<notin> set olds"
    by auto
  have "foldl replace xs (zip (a # olds) news) = foldl replace (replace xs (a, b)) (zip olds news')"
    by (simp add: news)
  also have "\<dots> = map (subst_label olds news') (replace xs (a, b))"
    by (rule Cons.IH [OF d l i])
  also have "\<dots> = map (subst_label (a # olds) news) xs"
    using a b by (auto simp: replace_def subst_label_def news)
  finally show ?case .
qed

lemma all_idx_valid: "v \<in> set (all_idx ds) \<Longrightarrow> valid_index v ds"
  by (induction ds arbitrary: v) auto

lemma all_idx_length: "v \<in> set (all_idx ds) \<Longrightarrow> length v = length ds"
  by (drule all_idx_valid) (rule valid_index_length)

lemma sum_list_cong_set:
  fixes f g :: "'a \<Rightarrow> 'b::monoid_add"
  shows "(\<And>x. x \<in> set xs \<Longrightarrow> f x = g x) \<Longrightarrow> sum_list (map f xs) = sum_list (map g xs)"
  by (induction xs) auto

lemma lookup_functional:
  assumes "\<forall>(c, m)\<in>set D. m = g c" "c \<in> fst ` set D"
  shows "lookup D c = g c"
proof -
  from assms(2) obtain m where "map_of D c = Some m"
    by (metis domD dom_map_of_conv_image_fst)
  moreover from this have "(c, m) \<in> set D" by (rule map_of_SomeD)
  ultimately show ?thesis using assms(1) by (auto simp: lookup_def)
qed

lemma lookup_functional_all:
  assumes "\<forall>(c, m)\<in>set D. m = g c"
  shows "list_all (\<lambda>(c, n). lookup D c = n) D"
  unfolding list_all_iff
proof safe
  fix c m assume m: "(c, m) \<in> set D"
  then have "c \<in> fst ` set D" by force
  from lookup_functional [OF assms this] m assms show "lookup D c = m" by auto
qed

lemma zip_replicate_mem:
  "(c, m) \<in> set (zip xs (replicate j v)) \<Longrightarrow> c \<in> set xs \<and> m = v"
  by (auto dest: set_zip_leftD set_zip_rightD)

lemma inj_on_subst_label:
  assumes "distinct news" "length news = length olds" "set news \<inter> A = {}"
  shows "inj_on (subst_label olds news) A"
proof (rule inj_onI)
  fix x y assume x: "x \<in> A" and y: "y \<in> A" and eq: "subst_label olds news x = subst_label olds news y"
  have mem: "news ! index_of olds z \<in> set news" if "z \<in> set olds" for z
    using that assms(2) by (simp add: index_of_lt)
  show "x = y"
  proof (cases "x \<in> set olds")
    case True
    show ?thesis
    proof (cases "y \<in> set olds")
      case yT: True
      from eq True yT have "news ! index_of olds x = news ! index_of olds y"
        by (simp add: subst_label_def)
      with assms(1,2) True yT have "index_of olds x = index_of olds y"
        by (simp add: nth_eq_iff_index_eq index_of_lt)
      then have "olds ! index_of olds x = olds ! index_of olds y" by simp
      with True yT show ?thesis by (simp add: nth_index_of)
    next
      case False
      with eq True have "news ! index_of olds x = y" by (simp add: subst_label_def)
      with mem [OF True] y assms(3) show ?thesis by auto
    qed
  next
    case False
    show ?thesis
    proof (cases "y \<in> set olds")
      case True
      with eq False have "x = news ! index_of olds y" by (simp add: subst_label_def)
      with mem [OF True] x assms(3) show ?thesis by auto
    next
      case yF: False
      with eq False show ?thesis by (simp add: subst_label_def)
    qed
  qed
qed

lemma index_of_subst:
  assumes "distinct news" "length news = length olds" "set news \<inter> {a..<b} = {}" "a \<le> p" "p < b"
  shows "index_of (map (subst_label olds news) [a..<b]) (subst_label olds news p) = p - a"
proof -
  have "inj_on (subst_label olds news) (insert p (set [a..<b]))"
    using inj_on_subst_label [OF assms(1,2), of "{a..<b}"] assms(3-5)
    by (simp add: insert_absorb)
  from index_of_map_inj [OF this] assms(4,5) show ?thesis
    by (simp add: index_of_upt)
qed

lemma map_nth_upt: "map (\<lambda>i. f (xs ! i)) [0..<length xs] = map f xs"
  by (rule nth_equalityI) auto

lemma upt_as_map: "[a..<a + k] = map (\<lambda>t. a + t) [0..<k]"
  by (rule nth_equalityI) auto

lemma channel_einsum:
  fixes N n :: nat and W :: "nat list"
  assumes dW: "distinct W" and bW: "\<forall>w\<in>set W. w < N"
    and sK: "shape Kt = n # replicate (length W * 2) 2"
    and sR: "shape rho = replicate (2 * N) 2"
    and sD: "shape Kd = n # replicate (length W * 2) 2"
  defines "k \<equiv> length W"
  defines "col \<equiv> map (\<lambda>w. w + N) W"
  defines "newrow \<equiv> [2 * N..<2 * N + k]"
  defines "newcol \<equiv> [2 * N + k..<2 * N + 2 * k]"
  defines "kl \<equiv> 2 * N + 2 * k"
  defines "out \<equiv> map (subst_label (col @ W) (newcol @ newrow)) [0..<2 * N]"
  shows "\<exists>T. qnp_einsum [kl # newrow @ W, [0..<2 * N], kl # col @ newcol] out [Kt, rho, Kd] = Inr T
     \<and> shape T = replicate (2 * N) 2
     \<and> (\<forall>idx. valid_index idx (replicate (2 * N) 2) \<longrightarrow>
          item T idx =
            (\<Sum>i\<leftarrow>[0..<n]. \<Sum>a\<leftarrow>all_idx (replicate k 2). \<Sum>b\<leftarrow>all_idx (replicate k 2).
               item Kt (i # sub_index idx W @ a) * item rho (put_index N W a b idx)
               * item Kd (i # b @ sub_index idx col)))"
proof -
  define olds where "olds = col @ W"
  define news where "news = newcol @ newrow"
  define subs where "subs = [kl # newrow @ W, [0..<2 * N], kl # col @ newcol]"
  define ops where "ops = [Kt, rho, Kd]"
  define D where "D = einsum_dims subs ops"
  define S where "S = einsum_summed subs out"
  define g where "g = (\<lambda>c. if c = kl then n else 2)"
  define sb where "sb = subst_label olds news"
  have lcol: "length col = k" and lnr: "length newrow = k" and lnc: "length newcol = k"
    by (simp_all add: col_def newrow_def newcol_def k_def)
  have col_set: "set col = (\<lambda>w. w + N) ` set W" by (simp add: col_def)
  have col_b: "\<forall>c\<in>set col. N \<le> c \<and> c < 2 * N" using bW by (auto simp: col_set)
  have d_col: "distinct col" by (simp add: col_def distinct_map dW inj_on_def)
  have colW: "set col \<inter> set W = {}" using bW col_b by fastforce
  have d_olds: "distinct olds" using d_col dW colW by (simp add: olds_def)
  have olds_b: "\<forall>c\<in>set olds. c < 2 * N" using bW col_b by (auto simp: olds_def)
  have set_news: "set news = {2 * N..<2 * N + 2 * k}"
    by (auto simp: news_def newrow_def newcol_def)
  have d_news: "distinct news" by (auto simp: news_def newrow_def newcol_def)
  have l_news: "length news = length olds" by (simp add: news_def olds_def lcol lnr lnc k_def)
  have news_st: "set news \<inter> {0..<2 * N} = {}" by (auto simp: set_news)
  have out_eq: "out = map sb [0..<2 * N]" by (simp add: out_def sb_def olds_def news_def)
  have idx_out: "index_of out (sb p) = p" if "p < 2 * N" for p
    using index_of_subst [OF d_news l_news news_st, of p] that by (simp add: out_eq sb_def)
  have sb_W: "sb (W ! t) = 2 * N + t" if "t < k" for t
  proof -
    have "W ! t \<in> set W" using that by (simp add: k_def)
    moreover from this colW have "W ! t \<notin> set col" by auto
    moreover have "index_of W (W ! t) = t" using that dW by (simp add: index_of_nth k_def)
    ultimately show ?thesis using that
      by (simp add: sb_def subst_label_def olds_def news_def index_of_append lcol
          nth_append lnc newrow_def)
  qed
  have sb_col: "sb (col ! t) = 2 * N + k + t" if "t < k" for t
  proof -
    have "col ! t \<in> set col" using that by (simp add: lcol)
    moreover have "index_of col (col ! t) = t" using that d_col by (simp add: index_of_nth lcol)
    ultimately show ?thesis using that
      by (simp add: sb_def subst_label_def olds_def news_def index_of_append nth_append lnc
          newcol_def)
  qed
  have sb_other: "sb p = p" if "p \<notin> set olds" for p
    using that by (simp add: sb_def subst_label_def)
  have out_mem: "c \<in> set out \<longleftrightarrow> (c < 2 * N \<and> c \<notin> set olds) \<or> (2 * N \<le> c \<and> c < 2 * N + 2 * k)" for c
  proof
    assume "c \<in> set out"
    then obtain p where p: "p < 2 * N" "c = sb p" by (auto simp: out_eq)
    show "(c < 2 * N \<and> c \<notin> set olds) \<or> (2 * N \<le> c \<and> c < 2 * N + 2 * k)"
    proof (cases "p \<in> set olds")
      case True
      then have "news ! index_of olds p \<in> set news"
        using l_news by (simp add: index_of_lt)
      with True p show ?thesis by (simp add: sb_def subst_label_def set_news)
    next
      case False
      with p show ?thesis by (simp add: sb_other)
    qed
  next
    assume a: "(c < 2 * N \<and> c \<notin> set olds) \<or> (2 * N \<le> c \<and> c < 2 * N + 2 * k)"
    show "c \<in> set out"
    proof (cases "c < 2 * N")
      case True
      with a have "sb c = c" by (simp add: sb_other)
      with True show ?thesis by (force simp: out_eq)
    next
      case False
      with a have "c \<in> set news" by (simp add: set_news)
      then obtain j where j: "j < length news" "news ! j = c" by (auto simp: in_set_conv_nth)
      then have "olds ! j \<in> set olds" "index_of olds (olds ! j) = j"
        using l_news d_olds by (simp_all add: index_of_nth)
      then have "sb (olds ! j) = c" "olds ! j < 2 * N"
        using j olds_b by (simp_all add: sb_def subst_label_def)
      then show ?thesis by (force simp: out_eq)
    qed
  qed
  have d_out: "distinct out"
    unfolding out_eq sb_def
    using inj_on_subst_label [OF d_news l_news, of "{0..<2 * N}"] news_st
    by (simp add: distinct_map)
  have l_out: "length out = 2 * N" by (simp add: out_eq)
  have cs: "set (concat subs) = insert kl (set newrow \<union> set W \<union> {0..<2 * N} \<union> set col \<union> set newcol)"
    by (auto simp: subs_def)
  have nr_set: "set newrow = {2 * N..<2 * N + k}" and nc_set: "set newcol = {2 * N + k..<2 * N + 2 * k}"
    by (simp_all add: newrow_def newcol_def)
  have out_sub: "list_all (\<lambda>c. c \<in> set (concat subs)) out"
    unfolding list_all_iff
  proof
    fix c assume "c \<in> set out"
    then have "c < 2 * N \<or> (2 * N \<le> c \<and> c < 2 * N + 2 * k)" by (auto simp: out_mem)
    then show "c \<in> set (concat subs)"
      unfolding cs nr_set nc_set by auto
  qed
  have D_eq: "D = (kl, n) # zip newrow (replicate k 2) @ zip W (replicate k 2)
        @ zip [0..<2 * N] (replicate (2 * N) 2)
        @ (kl, n) # zip col (replicate k 2) @ zip newcol (replicate k 2)"
    by (simp add: D_def einsum_dims_def subs_def ops_def sK sR sD k_def [symmetric]
        mult_2_right replicate_add lnr lcol)
  have W_kl: "\<forall>c\<in>set W. c \<noteq> kl" using bW by (auto simp: kl_def)
  have col_kl: "\<forall>c\<in>set col. c \<noteq> kl" using col_b by (auto simp: kl_def)
  have D_fun: "\<forall>(c, m)\<in>set D. m = g c"
    unfolding D_eq g_def
    using W_kl col_kl
    by (auto dest!: zip_replicate_mem simp: nr_set nc_set kl_def)
  have D_keys: "fst ` set D = set (concat subs)"
  proof -
    have "length (concat subs) = length (concat (map shape ops))"
      by (simp add: subs_def ops_def sK sR sD lnr lnc lcol k_def)
    then show ?thesis by (simp add: D_def einsum_dims_def flip: set_map)
  qed
  have lkD: "lookup D c = g c" if "c \<in> set (concat subs)" for c
    using lookup_functional [OF D_fun] that D_keys by simp
  have chk1: "length subs = length ops" by (simp add: subs_def ops_def)
  have chk2: "list_all2 (\<lambda>s a. length s = length (shape a)) subs ops"
    by (simp add: subs_def ops_def sK sR sD lnr lnc lcol k_def)
  have chk3: "list_all (\<lambda>(c, n). lookup D c = n) D"
    by (rule lookup_functional_all [OF D_fun])
  have sh: "map (lookup D) out = replicate (2 * N) 2"
  proof -
    have "lookup D c = 2" if "c \<in> set out" for c
    proof -
      from that out_sub have "c \<in> set (concat subs)" by (simp add: list_all_iff)
      moreover from that have "c \<noteq> kl" by (auto simp: out_mem kl_def)
      ultimately show ?thesis by (simp add: lkD g_def)
    qed
    then have "map (lookup D) out = map (\<lambda>c. 2) out" by simp
    then show ?thesis by (simp add: map_replicate_const l_out)
  qed
  have E0: "qnp_einsum subs out ops =
      Inr \<lparr>shape = replicate (2 * N) 2,
           item = (\<lambda>idx. \<Sum>vals\<leftarrow>all_idx (map (lookup D) S).
                     einsum_term subs ops (zip (out @ S) (idx @ vals)))\<rparr>"
    using chk1 chk2 chk3 d_out out_sub
    by (simp add: qnp_einsum_def D_def [symmetric] S_def [symmetric] sh)
  have S_set: "set S = insert kl (set W \<union> set col)"
  proof -
    have "set S = {c \<in> set (concat subs). c \<notin> set out}"
      by (auto simp: S_def einsum_summed_def set_unique)
    also have "\<dots> = insert kl (set W \<union> set col)"
      unfolding cs nr_set nc_set using bW col_b
      by (auto simp: out_mem olds_def kl_def)
    finally show ?thesis .
  qed
  have d_S: "distinct S" by (simp add: S_def einsum_summed_def distinct_unique)
  have S_out: "set out \<inter> set S = {}" by (auto simp: S_def einsum_summed_def)
  have S_sub: "set S \<subseteq> set (concat subs)" unfolding S_def by (rule einsum_summed_subset)
  have gS: "map (lookup D) S = map g S"
    using S_sub lkD by (simp add: subset_iff)
  define S' where "S' = kl # W @ col"
  have d_S': "distinct S'" using dW d_col colW W_kl col_kl by (auto simp: S'_def)
  have S'_set: "set S' = set S" by (auto simp: S'_def S_set)
  have gS': "map g S' = n # replicate k 2 @ replicate k 2"
  proof -
    have "map g W = map (\<lambda>c. 2) W" using W_kl by (simp add: g_def)
    moreover have "map g col = map (\<lambda>c. 2) col" using col_kl by (simp add: g_def)
    ultimately show ?thesis
      by (simp add: S'_def map_replicate_const lcol k_def) (simp add: g_def)
  qed
  show ?thesis
  proof (intro exI conjI allI impI)
    show "qnp_einsum [kl # newrow @ W, [0..<2 * N], kl # col @ newcol] out [Kt, rho, Kd] =
      Inr \<lparr>shape = replicate (2 * N) 2,
           item = (\<lambda>idx. \<Sum>vals\<leftarrow>all_idx (map (lookup D) S).
                     einsum_term subs ops (zip (out @ S) (idx @ vals)))\<rparr>"
      using E0 by (simp add: subs_def ops_def)
    show "shape \<lparr>shape = replicate (2 * N) 2,
           item = (\<lambda>idx. \<Sum>vals\<leftarrow>all_idx (map (lookup D) S).
                     einsum_term subs ops (zip (out @ S) (idx @ vals)))\<rparr> = replicate (2 * N) 2"
      by simp
  next
    fix idx assume vi: "valid_index idx (replicate (2 * N) 2)"
    then have l_idx: "length idx = 2 * N" by (simp add: valid_index_length)
    define T where "T = (\<lambda>e. item Kt (e kl # sub_index idx W @ map e W)
        * item rho (map (\<lambda>p. if p \<in> set olds then e p else idx ! p) [0..<2 * N])
        * item Kd (e kl # map e col @ sub_index idx col))"
    have tm: "einsum_term subs ops (zip (out @ S) (idx @ vals)) = T (envf S vals)"
      if lv: "length vals = length S" for vals
    proof -
      have dd: "distinct (out @ S)" using d_out d_S S_out by simp
      have lk: "lookup (zip (out @ S) (idx @ vals)) c =
           (if c \<in> set out then idx ! index_of out c else if c \<in> set S then envf S vals c else 0)" for c
        using lookup_env [OF dd _ lv, of idx c] l_idx l_out by (simp add: envf_def)
      have kl_S: "kl \<in> set S" "kl \<notin> set out" by (auto simp: S_set out_mem kl_def)
      have W_S: "\<forall>w\<in>set W. w \<in> set S \<and> w \<notin> set out"
        using bW by (fastforce simp: S_set out_mem olds_def)
      have col_S: "\<forall>w\<in>set col. w \<in> set S \<and> w \<notin> set out"
        using col_b by (fastforce simp: S_set out_mem olds_def)
      have m_nr: "map (lookup (zip (out @ S) (idx @ vals))) newrow = sub_index idx W"
      proof -
        have "lookup (zip (out @ S) (idx @ vals)) (2 * N + t) = idx ! (W ! t)" if "t < k" for t
        proof -
          have "W ! t < 2 * N" using that bW by (auto simp: k_def dest!: bspec [OF _ nth_mem])
          from idx_out [OF this] sb_W [OF that] have "index_of out (2 * N + t) = W ! t" by simp
          moreover have "2 * N + t \<in> set out" using that by (simp add: out_mem)
          ultimately show ?thesis by (simp add: lk)
        qed
        then have "map (lookup (zip (out @ S) (idx @ vals))) newrow = map (\<lambda>t. idx ! (W ! t)) [0..<k]"
          unfolding newrow_def upt_as_map by simp
        also have "\<dots> = sub_index idx W"
          unfolding sub_index_def k_def by (rule map_nth_upt)
        finally show ?thesis .
      qed
      have m_nc: "map (lookup (zip (out @ S) (idx @ vals))) newcol = sub_index idx col"
      proof -
        have "lookup (zip (out @ S) (idx @ vals)) (2 * N + k + t) = idx ! (col ! t)" if "t < k" for t
        proof -
          have "col ! t < 2 * N" using that col_b by (auto simp: lcol dest!: bspec [OF _ nth_mem])
          from idx_out [OF this] sb_col [OF that] have "index_of out (2 * N + k + t) = col ! t" by simp
          moreover have "2 * N + k + t \<in> set out" using that by (simp add: out_mem)
          ultimately show ?thesis by (simp add: lk)
        qed
        then have "map (lookup (zip (out @ S) (idx @ vals))) newcol = map (\<lambda>t. idx ! (col ! t)) [0..<k]"
          unfolding newcol_def using upt_as_map [of "2 * N + k" k] by (simp add: mult_2 add.assoc)
        also have "\<dots> = sub_index idx col"
          unfolding sub_index_def using map_nth_upt [of "(!) idx" col] by (simp add: lcol)
        finally show ?thesis .
      qed
      have m_W: "map (lookup (zip (out @ S) (idx @ vals))) W = map (envf S vals) W"
        using W_S by (simp add: lk)
      have m_col: "map (lookup (zip (out @ S) (idx @ vals))) col = map (envf S vals) col"
        using col_S by (simp add: lk)
      have m_st: "map (lookup (zip (out @ S) (idx @ vals))) [0..<2 * N]
          = map (\<lambda>p. if p \<in> set olds then envf S vals p else idx ! p) [0..<2 * N]"
      proof (rule map_cong [OF refl])
        fix p assume "p \<in> set [0..<2 * N]"
        then have p: "p < 2 * N" by simp
        show "lookup (zip (out @ S) (idx @ vals)) p = (if p \<in> set olds then envf S vals p else idx ! p)"
        proof (cases "p \<in> set olds")
          case True
          then have "p \<in> set S" "p \<notin> set out" using p by (auto simp: S_set out_mem olds_def)
          with True show ?thesis by (simp add: lk)
        next
          case False
          with p have "p \<in> set out" by (simp add: out_mem)
          moreover from idx_out [OF p] sb_other [OF False] have "index_of out p = p" by simp
          ultimately show ?thesis using False by (simp add: lk)
        qed
      qed
      have m_kl: "lookup (zip (out @ S) (idx @ vals)) kl = envf S vals kl"
        using kl_S by (simp add: lk)
      show ?thesis
        by (simp add: einsum_term_def subs_def ops_def m_nr m_nc m_W m_col m_st m_kl T_def
            mult.assoc)
    qed
    have T': "T (envf S' (i # a @ b)) =
        item Kt (i # sub_index idx W @ a) * item rho (put_index N W a b idx)
        * item Kd (i # b @ sub_index idx col)"
      if la: "length a = k" and lb: "length b = k" for i a b
    proof -
      have e_kl: "envf S' (i # a @ b) kl = i" by (simp add: envf_def S'_def)
      have e_W: "envf S' (i # a @ b) p = a ! index_of W p" if "p \<in> set W" for p
        using that W_kl la by (auto simp: envf_def S'_def index_of_append nth_append index_of_lt k_def)
      have e_col: "envf S' (i # a @ b) p = b ! index_of col p" if "p \<in> set col" for p
        using that col_kl colW la by (auto simp: envf_def S'_def index_of_append nth_append k_def)
      have mW: "map (envf S' (i # a @ b)) W = a"
      proof (rule nth_equalityI)
        show "length (map (envf S' (i # a @ b)) W) = length a" by (simp add: la k_def)
        fix t assume "t < length (map (envf S' (i # a @ b)) W)"
        then show "map (envf S' (i # a @ b)) W ! t = a ! t"
          using dW by (simp add: e_W index_of_nth)
      qed
      have mcol: "map (envf S' (i # a @ b)) col = b"
      proof (rule nth_equalityI)
        show "length (map (envf S' (i # a @ b)) col) = length b" by (simp add: lb lcol)
        fix t assume "t < length (map (envf S' (i # a @ b)) col)"
        then show "map (envf S' (i # a @ b)) col ! t = b ! t"
          using d_col by (simp add: e_col index_of_nth)
      qed
      have mst: "map (\<lambda>p. if p \<in> set olds then envf S' (i # a @ b) p else idx ! p) [0..<2 * N]
          = put_index N W a b idx"
        unfolding put_index_def
        by (rule map_cong [OF refl]) (auto simp: olds_def e_W e_col col_def [symmetric])
      show ?thesis by (simp add: T_def e_kl mW mcol mst)
    qed
    have "item \<lparr>shape = replicate (2 * N) 2,
           item = (\<lambda>idx. \<Sum>vals\<leftarrow>all_idx (map (lookup D) S).
                     einsum_term subs ops (zip (out @ S) (idx @ vals)))\<rparr> idx
        = (\<Sum>vals\<leftarrow>all_idx (map g S). einsum_term subs ops (zip (out @ S) (idx @ vals)))"
      by (simp add: gS)
    also have "\<dots> = (\<Sum>vals\<leftarrow>all_idx (map g S). T (envf S vals))"
      by (rule sum_list_cong_set) (auto dest!: all_idx_length intro!: tm)
    also have "\<dots> = (\<Sum>e\<in>Pi\<^sub>E (set S) (\<lambda>c. {..<g c}). T e)"
      by (rule env_sum [OF d_S])
    also have "\<dots> = (\<Sum>vals\<leftarrow>all_idx (map g S'). T (envf S' vals))"
      using env_sum [OF d_S', of T g] by (simp add: S'_set)
    also have "\<dots> = (\<Sum>i\<leftarrow>[0..<n]. \<Sum>a\<leftarrow>all_idx (replicate k 2). \<Sum>b\<leftarrow>all_idx (replicate k 2).
          T (envf S' (i # a @ b)))"
      unfolding gS' sum_all_idx_Cons sum_all_idx_append by simp
    also have "\<dots> = (\<Sum>i\<leftarrow>[0..<n]. \<Sum>a\<leftarrow>all_idx (replicate k 2). \<Sum>b\<leftarrow>all_idx (replicate k 2).
          item Kt (i # sub_index idx W @ a) * item rho (put_index N W a b idx)
          * item Kd (i # b @ sub_index idx col))"
      by (intro sum_list_cong_set T') (auto dest!: all_idx_length)
    finally show "item \<lparr>shape = replicate (2 * N) 2,
           item = (\<lambda>idx. \<Sum>vals\<leftarrow>all_idx (map (lookup D) S).
                     einsum_term subs ops (zip (out @ S) (idx @ vals)))\<rparr> idx
        = (\<Sum>i\<leftarrow>[0..<n]. \<Sum>a\<leftarrow>all_idx (replicate k 2). \<Sum>b\<leftarrow>all_idx (replicate k 2).
          item Kt (i # sub_index idx W @ a) * item rho (put_index N W a b idx)
          * item Kd (i # b @ sub_index idx col))" .
  qed
qed

lemma map_wires_Inr:
  assumes "map_wires d ws = Inr W"
  shows "W = map (index_of (wires d)) ws" "set ws \<subseteq> set (wires d)"
    "\<forall>w\<in>set W. w < num_wires d" "length W = length ws"
  using assms
  by (auto simp: map_wires_def list_all_iff num_wires_def index_of_lt split: if_splits)

lemma inj_on_index_of: "inj_on (index_of xs) (set xs)"
  by (rule inj_onI) (metis nth_index_of)

lemma map_wires_distinct:
  assumes "map_wires d ws = Inr W" "distinct ws"
  shows "distinct W"
proof -
  from map_wires_Inr [OF assms(1)] have W: "W = map (index_of (wires d)) ws"
    and sub: "set ws \<subseteq> set (wires d)" by auto
  from inj_on_subset [OF inj_on_index_of sub] assms(2) show ?thesis
    by (simp add: W distinct_map)
qed

lemma prod_list_replicate2: "prod_list (replicate m (2::nat)) = 2 ^ m"
  by (induction m) auto

lemma bits_index_lt: "valid_index v (replicate k 2) \<Longrightarrow> bits_index v < 2 ^ k"
  using ravel_lt [of v "replicate k 2"] valid_index_length [of v "replicate k 2"]
  by (simp add: bits_index_def prod_list_replicate2)

lemma ravel_kraus:
  assumes r: "valid_index r (replicate k 2)" and a: "valid_index a (replicate k 2)" and i: "i < n"
  shows "unravel_index (ravel_multi_index (i # r @ a) (n # replicate (k * 2) 2)) [n, 2 ^ k, 2 ^ k]
         = [i, bits_index r, bits_index a]"
proof -
  have lr: "length r = k" and la: "length a = k"
    using r a by (simp_all add: valid_index_length)
  have "ravel_multi_index (r @ a) (replicate k 2 @ replicate k 2)
      = bits_index r * 2 ^ k + bits_index a"
    using ravel_append [of r "replicate k 2" a "replicate k 2"] lr la
    by (simp add: bits_index_def prod_list_replicate2)
  then have "ravel_multi_index (i # r @ a) (n # replicate (k * 2) 2)
      = ravel_multi_index [i, bits_index r, bits_index a] [n, 2 ^ k, 2 ^ k]"
    by (simp add: mult_2_right replicate_add prod_list_replicate2 power_add)
  moreover have "valid_index [i, bits_index r, bits_index a] [n, 2 ^ k, 2 ^ k]"
    using i bits_index_lt [OF r] bits_index_lt [OF a] by simp
  ultimately show ?thesis by (simp only: unravel_ravel)
qed

lemma kraus_tensor:
  assumes ne: "Ks \<noteq> []" and sh: "\<forall>K\<in>set Ks. shape K = [2 ^ k, 2 ^ k]"
  shows "\<exists>St Kt. qnp_stack Ks = Inr St \<and> hd (shape St) = length Ks
     \<and> reshape St (length Ks # replicate (k * 2) 2) = Inr Kt
     \<and> shape Kt = length Ks # replicate (k * 2) 2
     \<and> (\<forall>i r a. i < length Ks \<longrightarrow> valid_index r (replicate k 2) \<longrightarrow> valid_index a (replicate k 2) \<longrightarrow>
          item Kt (i # r @ a) = item (Ks ! i) [bits_index r, bits_index a])"
proof -
  from ne obtain K0 rest where Ks: "Ks = K0 # rest" by (cases Ks) auto
  define St where "St = \<lparr>shape = length Ks # shape K0,
      item = (\<lambda>idx. case idx of [] \<Rightarrow> 0 | i # r \<Rightarrow> item (Ks ! i) r)\<rparr>"
  have s0: "shape K0 = [2 ^ k, 2 ^ k]" using sh Ks by simp
  have st: "qnp_stack Ks = Inr St"
    using sh unfolding St_def Ks by (simp add: qnp_stack_def list_all_iff)
  have shSt: "shape St = [length Ks, 2 ^ k, 2 ^ k]" by (simp add: St_def s0)
  define Kt where "Kt = \<lparr>shape = length Ks # replicate (k * 2) 2,
      item = (\<lambda>idx. item St (unravel_index (ravel_multi_index idx (length Ks # replicate (k * 2) 2)) (shape St)))\<rparr>"
  have rs: "reshape St (length Ks # replicate (k * 2) 2) = Inr Kt"
    by (simp add: reshape_def Kt_def shSt prod_list_replicate2 power_mult power2_eq_square mult.commute)
  show ?thesis
  proof (intro exI conjI allI impI)
    show "qnp_stack Ks = Inr St" by (rule st)
    show "hd (shape St) = length Ks" by (simp add: shSt)
    show "reshape St (length Ks # replicate (k * 2) 2) = Inr Kt" by (rule rs)
    show "shape Kt = length Ks # replicate (k * 2) 2" by (simp add: Kt_def)
  next
    fix i r a assume "i < length Ks" "valid_index r (replicate k 2)" "valid_index a (replicate k 2)"
    from ravel_kraus [OF this(2,3,1)]
    show "item Kt (i # r @ a) = item (Ks ! i) [bits_index r, bits_index a]"
      by (simp add: Kt_def shSt) (simp add: St_def)
  qed
qed

lemma kraus_dagger_tensor:
  assumes ne: "Ks \<noteq> []" and sh: "\<forall>K\<in>set Ks. shape K = [2 ^ k, 2 ^ k]"
  shows "\<exists>Sd Kd. qnp_stack (map (\<lambda>K. qnp_conj (qnp_transpose K)) Ks) = Inr Sd
     \<and> reshape Sd (length Ks # replicate (k * 2) 2) = Inr Kd
     \<and> shape Kd = length Ks # replicate (k * 2) 2
     \<and> (\<forall>i r a. i < length Ks \<longrightarrow> valid_index r (replicate k 2) \<longrightarrow> valid_index a (replicate k 2) \<longrightarrow>
          item Kd (i # r @ a) = cnj (item (Ks ! i) [bits_index a, bits_index r]))"
proof -
  let ?Ds = "map (\<lambda>K. qnp_conj (qnp_transpose K)) Ks"
  have ne': "?Ds \<noteq> []" using ne by simp
  have sh': "\<forall>K\<in>set ?Ds. shape K = [2 ^ k, 2 ^ k]"
    using sh by (auto simp: qnp_conj_def qnp_transpose_def)
  from kraus_tensor [OF ne' sh'] obtain Sd Kd where
    a: "qnp_stack ?Ds = Inr Sd" "reshape Sd (length ?Ds # replicate (k * 2) 2) = Inr Kd"
      "shape Kd = length ?Ds # replicate (k * 2) 2"
    and it: "\<And>i r a. i < length ?Ds \<Longrightarrow> valid_index r (replicate k 2) \<Longrightarrow> valid_index a (replicate k 2) \<Longrightarrow>
          item Kd (i # r @ a) = item (?Ds ! i) [bits_index r, bits_index a]"
    by blast
  show ?thesis
  proof (intro exI conjI allI impI)
    show "qnp_stack ?Ds = Inr Sd" by (rule a)
    show "reshape Sd (length Ks # replicate (k * 2) 2) = Inr Kd" using a by simp
    show "shape Kd = length Ks # replicate (k * 2) 2" using a by simp
  next
    fix i r a assume h: "i < length Ks" "valid_index r (replicate k 2)" "valid_index a (replicate k 2)"
    then show "item Kd (i # r @ a) = cnj (item (Ks ! i) [bits_index a, bits_index r])"
      using it [of i r a] by (simp add: qnp_conj_def qnp_transpose_def)
  qed
qed

lemma sum_list_nth_upt:
  fixes f :: "'a \<Rightarrow> 'b::monoid_add"
  shows "(\<Sum>i\<leftarrow>[0..<length xs]. f (xs ! i)) = (\<Sum>x\<leftarrow>xs. f x)"
  by (simp add: map_nth_upt)

lemma sub_index_valid:
  assumes "valid_index idx shp" "\<forall>w\<in>set W. w < length shp" "\<forall>w\<in>set W. shp ! w = m"
  shows "valid_index (sub_index idx W) (replicate (length W) m)"
proof -
  have "idx ! w < m" if "w \<in> set W" for w
    using assms that by (auto simp: valid_index_def list_all2_conv_all_nth)
  then show ?thesis
    by (auto simp: valid_index_def sub_index_def list_all2_conv_all_nth)
qed

lemma apply_channel_correct:
  assumes mw: "map_wires d ws = Inr W" and dws: "distinct ws"
    and st: "s_state d = Some rho" and sr: "shape rho = replicate (2 * num_wires d) 2"
    and ne: "Ks \<noteq> []" and sh: "\<forall>K\<in>set Ks. shape K = [2 ^ length ws, 2 ^ length ws]"
    and lab: "2 * num_wires d + 2 * length ws + 1 \<le> 52"
  shows "\<exists>rho'. apply_channel d Ks ws = Inr (d\<lparr>s_state := Some rho'\<rparr>)
     \<and> shape rho' = replicate (2 * num_wires d) 2
     \<and> (\<forall>idx. valid_index idx (replicate (2 * num_wires d) 2) \<longrightarrow>
          item rho' idx = kraus_conjugation (num_wires d) W Ks rho idx)"
proof -
  define N where "N = num_wires d"
  define k where "k = length W"
  define L where "L = (!) ABC"
  define col where "col = map (\<lambda>w. w + N) W"
  define newrow where "newrow = [2 * N..<2 * N + k]"
  define newcol where "newcol = [2 * N + k..<2 * N + 2 * k]"
  define kl where "kl = 2 * N + 2 * k"
  define out where "out = map (subst_label (col @ W) (newcol @ newrow)) [0..<2 * N]"
  have lW: "length W = length ws" and bW: "\<forall>w\<in>set W. w < N"
    using map_wires_Inr [OF mw] by (simp_all add: N_def)
  have dW: "distinct W" by (rule map_wires_distinct [OF mw dws])
  have kN: "k \<le> N"
  proof -
    have "card (set W) \<le> card {..<N}" using bW by (intro card_mono) auto
    then show ?thesis using dW by (simp add: distinct_card k_def)
  qed
  have lab': "2 * N + 2 * k + 1 \<le> 52" using lab by (simp add: N_def k_def lW)
  have sh': "\<forall>K\<in>set Ks. shape K = [2 ^ k, 2 ^ k]" using sh by (simp add: k_def lW)
  from kraus_tensor [OF ne sh'] obtain St Kt where
    st_eq: "qnp_stack Ks = Inr St" and hdSt: "hd (shape St) = length Ks"
    and rs_eq: "reshape St (length Ks # replicate (length W * 2) 2) = Inr Kt"
    and sKt: "shape Kt = length Ks # replicate (length W * 2) 2"
    and iKt: "\<And>i r a. i < length Ks \<Longrightarrow> valid_index r (replicate k 2) \<Longrightarrow> valid_index a (replicate k 2) \<Longrightarrow>
          item Kt (i # r @ a) = item (Ks ! i) [bits_index r, bits_index a]"
    unfolding k_def by blast
  from kraus_dagger_tensor [OF ne sh'] obtain Sd Kd where
    sd_eq: "qnp_stack (map (\<lambda>K. qnp_conj (qnp_transpose K)) Ks) = Inr Sd"
    and rd_eq: "reshape Sd (length Ks # replicate (length W * 2) 2) = Inr Kd"
    and sKd: "shape Kd = length Ks # replicate (length W * 2) 2"
    and iKd: "\<And>i r a. i < length Ks \<Longrightarrow> valid_index r (replicate k 2) \<Longrightarrow> valid_index a (replicate k 2) \<Longrightarrow>
          item Kd (i # r @ a) = cnj (item (Ks ! i) [bits_index a, bits_index r])"
    unfolding k_def by blast
  have sr': "shape rho = replicate (2 * N) 2" using sr by (simp add: N_def)
  from channel_einsum [OF dW bW sKt sr' sKd]
  obtain T where
    E: "qnp_einsum [kl # newrow @ W, [0..<2 * N], kl # col @ newcol] out [Kt, rho, Kd] = Inr T"
    and sT: "shape T = replicate (2 * N) 2"
    and iT: "\<And>idx. valid_index idx (replicate (2 * N) 2) \<Longrightarrow>
          item T idx =
            (\<Sum>i\<leftarrow>[0..<length Ks]. \<Sum>a\<leftarrow>all_idx (replicate k 2). \<Sum>b\<leftarrow>all_idx (replicate k 2).
               item Kt (i # sub_index idx W @ a) * item rho (put_index N W a b idx)
               * item Kd (i # b @ sub_index idx col))"
    unfolding k_def col_def newrow_def newcol_def kl_def out_def by blast
  have col_b: "\<forall>c\<in>set col. c < 2 * N" using bW by (auto simp: col_def)
  have ti: "take (2 * num_wires d) ABC = map L [0..<2 * N]"
    using lab' by (simp add: take_nth length_ABC L_def N_def)
  have ri: "ABC_ARRAY_getitem W = Inr (map L W)"
    using bW lab' by (subst ABC_ARRAY_getitem_ok) (auto simp: L_def)
  have ci: "ABC_ARRAY_getitem (map (\<lambda>w. w + num_wires d) W) = Inr (map L col)"
    using col_b lab' by (subst ABC_ARRAY_getitem_ok) (auto simp: L_def col_def N_def)
  have nr: "slice ABC (2 * num_wires d) (2 * num_wires d + length W) = map L newrow"
    using lab' by (simp add: slice_nth length_ABC L_def N_def k_def newrow_def)
  have nc: "slice ABC (2 * num_wires d + length W) (2 * num_wires d + 2 * length W) = map L newcol"
    using lab' by (simp add: slice_nth length_ABC L_def N_def k_def newcol_def)
  have ki: "slice ABC (2 * num_wires d + 2 * length W) (2 * num_wires d + 2 * length W + 1) = [L kl]"
    using lab' by (simp add: slice_nth length_ABC L_def N_def k_def kl_def)
  have inj52: "inj_on L {..<52}" unfolding L_def by (rule inj_on_ABC)
  have nr_b: "\<forall>c\<in>set newrow. c < 52" and nc_b: "\<forall>c\<in>set newcol. c < 52"
    using lab' by (auto simp: newrow_def newcol_def)
  have W_b: "\<forall>c\<in>set W. c < 52" and col_b52: "\<forall>c\<in>set col. c < 52"
    using bW col_b lab' by auto
  have fold: "foldl replace (map L [0..<2 * N]) (zip (map L col @ map L W) (map L newcol @ map L newrow))
      = map L out"
  proof -
    have sub: "set [0..<2 * N] \<union> set (col @ W) \<union> set (newcol @ newrow) \<subseteq> {..<52}"
      using W_b col_b52 nr_b nc_b lab' by auto
    have "foldl replace (map L [0..<2 * N]) (zip (map L (col @ W)) (map L (newcol @ newrow)))
        = map L (foldl replace [0..<2 * N] (zip (col @ W) (newcol @ newrow)))"
      by (rule foldl_replace_map, rule inj_on_subset [OF inj52 sub])
    moreover have "foldl replace [0..<2 * N] (zip (col @ W) (newcol @ newrow)) = out"
      unfolding out_def
    proof (rule foldl_replace_subst)
      show "distinct (col @ W)"
        using dW bW by (auto simp: col_def distinct_map inj_on_def)
      show "length (newcol @ newrow) = length (col @ W)"
        by (simp add: newcol_def newrow_def col_def k_def)
      show "set (newcol @ newrow) \<inter> set (col @ W) = {}"
        using bW by (auto simp: newcol_def newrow_def col_def)
    qed
    ultimately show ?thesis by simp
  qed
  have out_b: "\<forall>c\<in>set out. c < 52"
  proof
    fix c assume "c \<in> set out"
    then obtain p where p: "p < 2 * N" "c = subst_label (col @ W) (newcol @ newrow) p"
      by (auto simp: out_def)
    show "c < 52"
    proof (cases "p \<in> set (col @ W)")
      case True
      then have "index_of (col @ W) p < length (newcol @ newrow)"
        using index_of_lt [OF True] by (simp add: newcol_def newrow_def col_def k_def)
      then have "(newcol @ newrow) ! index_of (col @ W) p \<in> set (newcol @ newrow)"
        by (rule nth_mem)
      with True p nr_b nc_b show ?thesis by (auto simp: subst_label_def)
    next
      case False
      with p lab' show ?thesis by (simp add: subst_label_def)
    qed
  qed
  have EL: "qnp_einsum [[L kl] @ map L newrow @ map L W, map L [0..<2 * N], [L kl] @ map L col @ map L newcol]
      (map L out) [Kt, rho, Kd] = Inr T"
  proof -
    have sub: "set (concat [kl # newrow @ W, [0..<2 * N], kl # col @ newcol]) \<union> set out \<subseteq> {..<52}"
      using W_b col_b52 nr_b nc_b out_b lab' by (auto simp: kl_def)
    from einsum_relabel [OF inj_on_subset [OF inj52 sub], of "[Kt, rho, Kd]"] E
    show ?thesis by simp
  qed
  have app: "apply_channel d Ks ws = Inr (d\<lparr>s_state := Some T\<rparr>)"
    unfolding apply_channel_def Let_def mw tryE_Inr st_eq sd_eq hdSt rs_eq rd_eq ti ri ci nr nc ki
      fold st asarray_Some EL
    by (rule refl)
  show ?thesis
  proof (intro exI conjI allI impI)
    show "apply_channel d Ks ws = Inr (d\<lparr>s_state := Some T\<rparr>)" by (rule app)
    show "shape T = replicate (2 * num_wires d) 2" using sT by (simp add: N_def)
  next
    fix idx assume vi: "valid_index idx (replicate (2 * num_wires d) 2)"
    then have vi': "valid_index idx (replicate (2 * N) 2)" by (simp add: N_def)
    have vW: "valid_index (sub_index idx W) (replicate k 2)"
      unfolding k_def using bW by (intro sub_index_valid [OF vi']) auto
    have vcol: "valid_index (sub_index idx col) (replicate k 2)"
      using sub_index_valid [OF vi', of col 2] col_b by (simp add: col_def k_def)
    have "item T idx =
            (\<Sum>i\<leftarrow>[0..<length Ks]. \<Sum>a\<leftarrow>all_idx (replicate k 2). \<Sum>b\<leftarrow>all_idx (replicate k 2).
               item (Ks ! i) [bits_index (sub_index idx W), bits_index a] * item rho (put_index N W a b idx)
               * cnj (item (Ks ! i) [bits_index (sub_index idx col), bits_index b]))"
      unfolding iT [OF vi']
      by (intro sum_list_cong_set) (auto dest!: all_idx_valid simp: iKt iKd vW vcol)
    also have "\<dots> = kraus_conjugation N W Ks rho idx"
      unfolding kraus_conjugation_def k_def [symmetric] col_def [symmetric]
      by (rule sum_list_nth_upt)
    finally show "item T idx = kraus_conjugation (num_wires d) W Ks rho idx"
      by (simp add: N_def)
  qed
qed

section \<open>Lemmas on the device\<close>

lemma ravel_matrix:
  assumes r: "valid_index r (replicate k 2)" and a: "valid_index a (replicate k 2)"
  shows "unravel_index (ravel_multi_index (r @ a) (replicate (2 * k) 2)) [2 ^ k, 2 ^ k]
         = [bits_index r, bits_index a]"
proof -
  have lr: "length r = k" and la: "length a = k"
    using r a by (simp_all add: valid_index_length)
  have "ravel_multi_index (r @ a) (replicate k 2 @ replicate k 2)
      = bits_index r * 2 ^ k + bits_index a"
    using ravel_append [of r "replicate k 2" a "replicate k 2"] lr la
    by (simp add: bits_index_def prod_list_replicate2)
  then have "ravel_multi_index (r @ a) (replicate (2 * k) 2)
      = ravel_multi_index [bits_index r, bits_index a] [2 ^ k, 2 ^ k]"
    by (simp add: mult_2 replicate_add)
  moreover have "valid_index [bits_index r, bits_index a] [2 ^ k, 2 ^ k]"
    using bits_index_lt [OF r] bits_index_lt [OF a] by simp
  ultimately show ?thesis by (simp only: unravel_ravel)
qed

lemma valid_index_take_drop:
  assumes "valid_index idx (replicate (2 * k) 2)"
  shows "valid_index (take k idx) (replicate k 2)" "valid_index (drop k idx) (replicate k 2)"
  using assms by (auto simp: valid_index_def list_all2_conv_all_nth)

lemma ravel_matrix_idx:
  assumes "valid_index idx (replicate (2 * k) 2)"
  shows "unravel_index (ravel_multi_index idx (replicate (2 * k) 2)) [2 ^ k, 2 ^ k]
         = [bits_index (take k idx), bits_index (drop k idx)]"
  using ravel_matrix [OF valid_index_take_drop [OF assms]] by simp

lemma create_basis_state_ok:
  assumes "index < 2 ^ num_wires d"
  shows "\<exists>T. create_basis_state d index = Inr T \<and> shape T = replicate (2 * num_wires d) 2
     \<and> (\<forall>idx. valid_index idx (replicate (2 * num_wires d) 2) \<longrightarrow>
          item T idx = (if bits_index (take (num_wires d) idx) = index
                           \<and> bits_index (drop (num_wires d) idx) = index then 1 else 0))"
proof -
  define N where "N = num_wires d"
  define Z where "Z = (zeros [2 ^ N, 2 ^ N])\<lparr>item := (item (zeros [2 ^ N, 2 ^ N]))([index, index] := 1)\<rparr>"
  define T where "T = \<lparr>shape = replicate (2 * N) 2,
      item = (\<lambda>idx. item Z (unravel_index (ravel_multi_index idx (replicate (2 * N) 2)) (shape Z)))\<rparr>"
  have shZ: "shape Z = [2 ^ N, 2 ^ N]" by (simp add: Z_def zeros_def)
  have s1: "setitem (zeros [2 ^ N, 2 ^ N]) [index, index] 1 = Inr Z"
    using assms by (simp add: setitem_def Z_def zeros_def N_def)
  have s2: "reshape Z (replicate (2 * N) 2) = Inr T"
    by (simp add: reshape_def T_def shZ prod_list_replicate2 power_add [symmetric] mult_2)
  have c: "create_basis_state d index = Inr T"
    by (simp add: create_basis_state_def N_def [symmetric] s1 s2)
  have it: "item T idx = (if bits_index (take N idx) = index \<and> bits_index (drop N idx) = index then 1 else 0)"
    if "valid_index idx (replicate (2 * N) 2)" for idx
    using ravel_matrix_idx [OF that] by (simp add: T_def shZ) (simp add: Z_def zeros_def)
  show ?thesis
    using c it by (auto simp: N_def T_def)
qed

lemma fresh_device_eq:
  assumes "n \<le> 23"
  shows "\<exists>T. fresh_device n = \<lparr>wires = map (\<lambda>i. IntLabel (int i)) [0..<n], readout_err = None,
        s_state = Some T, s_pre_rotated_state = Some T, measured_wires = [], s_debugger = None\<rparr>
     \<and> shape T = replicate (2 * n) 2
     \<and> (\<forall>idx. valid_index idx (replicate (2 * n) 2) \<longrightarrow>
          item T idx = (if bits_index (take n idx) = 0 \<and> bits_index (drop n idx) = 0 then 1 else 0))"
proof -
  define d0 where "d0 = \<lparr>wires = map (\<lambda>i. IntLabel (int i)) [0..<n], readout_err = None,
        s_state = None, s_pre_rotated_state = None, measured_wires = [], s_debugger = None\<rparr>"
  have nw: "num_wires d0 = n" by (simp add: d0_def num_wires_def)
  from create_basis_state_ok [of 0 d0] obtain T where
    T: "create_basis_state d0 0 = Inr T" "shape T = replicate (2 * n) 2"
      "\<forall>idx. valid_index idx (replicate (2 * n) 2) \<longrightarrow>
          item T idx = (if bits_index (take n idx) = 0 \<and> bits_index (drop n idx) = 0 then 1 else 0)"
    by (auto simp: nw)
  have "DefaultMixed_init (WiresInt (int n)) ProbNone = Inr (d0\<lparr>s_state := Some T, s_pre_rotated_state := Some T\<rparr>)"
    using assms T(1) unfolding d0_def
    by (simp add: DefaultMixed_init_def init_checks_def)
  then have "fresh_device n = d0\<lparr>s_state := Some T, s_pre_rotated_state := Some T\<rparr>"
    by (simp add: fresh_device_def)
  with T(2,3) show ?thesis by (auto simp: d0_def)
qed

lemma length_slice: "length (slice xs a b) \<le> b - a"
  by (simp add: slice_def)

lemma apply_channel_exhausted:
  assumes mw: "map_wires d ws = Inr W"
    and st: "s_state d = Some rho"
    and ne: "Ks \<noteq> []" and sh: "\<forall>K\<in>set Ks. shape K = [2 ^ length ws, 2 ^ length ws]"
    and small: "num_wires d \<le> 26"
    and lab: "52 \<le> 2 * num_wires d + 2 * length ws"
  shows "apply_channel d Ks ws =
     Inl (ValueError ''einsum: operand dimensions do not match the subscripts'', d)"
proof -
  define N where "N = num_wires d"
  define k where "k = length W"
  define L where "L = (!) ABC"
  have lW: "length W = length ws" and bW: "\<forall>w\<in>set W. w < N"
    using map_wires_Inr [OF mw] by (simp_all add: N_def)
  have sh': "\<forall>K\<in>set Ks. shape K = [2 ^ k, 2 ^ k]" using sh by (simp add: k_def lW)
  from kraus_tensor [OF ne sh'] obtain St Kt where
    st_eq: "qnp_stack Ks = Inr St" and hdSt: "hd (shape St) = length Ks"
    and rs_eq: "reshape St (length Ks # replicate (length W * 2) 2) = Inr Kt"
    and sKt: "shape Kt = length Ks # replicate (length W * 2) 2"
    unfolding k_def by blast
  from kraus_dagger_tensor [OF ne sh'] obtain Sd Kd where
    sd_eq: "qnp_stack (map (\<lambda>K. qnp_conj (qnp_transpose K)) Ks) = Inr Sd"
    and rd_eq: "reshape Sd (length Ks # replicate (length W * 2) 2) = Inr Kd"
    unfolding k_def by blast
  have ri: "ABC_ARRAY_getitem W = Inr (map L W)"
    using bW small by (subst ABC_ARRAY_getitem_ok) (auto simp: L_def N_def)
  have ci: "ABC_ARRAY_getitem (map (\<lambda>w. w + num_wires d) W) = Inr (map L (map (\<lambda>w. w + num_wires d) W))"
    using bW small by (subst ABC_ARRAY_getitem_ok) (auto simp: L_def N_def)
  have ki: "slice ABC (2 * num_wires d + 2 * length W) (2 * num_wires d + 2 * length W + 1) = []"
    using lab by (simp add: slice_def length_ABC lW)
  define nrs where "nrs = slice ABC (2 * num_wires d) (2 * num_wires d + length W)"
  have lnrs: "length nrs \<le> length W"
    using length_slice [of ABC "2 * num_wires d" "2 * num_wires d + length W"] by (simp add: nrs_def)
  have E: "qnp_einsum [[] @ nrs @ map L W, X, Y] out [Kt, rho, Kd]
      = Inl (ValueError ''einsum: operand dimensions do not match the subscripts'')" for X Y out
    using lnrs by (simp add: qnp_einsum_def sKt)
  show ?thesis
    unfolding apply_channel_def Let_def mw tryE_Inr st_eq sd_eq hdSt rs_eq rd_eq ri ci ki
      st asarray_Some nrs_def [symmetric] E tryE_Inl
    by (rule refl)
qed

lemma map_wires_cong: "wires d = wires d' \<Longrightarrow> map_wires d ws = map_wires d' ws"
  by (simp add: map_wires_def)

lemma wires_fresh: "n \<le> 23 \<Longrightarrow> wires (fresh_device n) = map (\<lambda>i. IntLabel (int i)) [0..<n]"
  using fresh_device_eq [of n] by auto

lemma num_wires_fresh: "n \<le> 23 \<Longrightarrow> num_wires (fresh_device n) = n"
  by (simp add: num_wires_def wires_fresh)

lemma state_fresh:
  assumes "n \<le> 23"
  shows "\<exists>T. s_state (fresh_device n) = Some T \<and> s_pre_rotated_state (fresh_device n) = Some T
     \<and> shape T = replicate (2 * n) 2
     \<and> (\<forall>idx. valid_index idx (replicate (2 * n) 2) \<longrightarrow>
          item T idx = (if bits_index (take n idx) = 0 \<and> bits_index (drop n idx) = 0 then 1 else 0))"
  using fresh_device_eq [OF assms] by auto

lemma mw23: "map_wires (fresh_device 23) [wire 0, wire 1, wire 2] = Inr [0, 1, 2]"
  by (simp add: map_wires_def wires_fresh wire_def eval_nat_numeral)

lemma mw1: "map_wires (fresh_device 1) [wire 0] = Inr [0]"
  by (simp add: map_wires_def wires_fresh wire_def)

lemma all_idx_2: "all_idx [2] = [[0], [1]]"
  by (simp add: upt_rec)

lemma all_idx_rep1: "all_idx (replicate (length [w]) 2) = [[0], [1]]"
  using all_idx_2 by simp

lemma bits_index_1: "bits_index [0] = 0" "bits_index [1] = 1" "bits_index [Suc 0] = 1"
  by (simp_all add: bits_index_def)

lemma pauli_x_items:
  "shape pauli_x = [2, 2]"
  "item pauli_x [0, 0] = 0" "item pauli_x [0, Suc 0] = 1" "item pauli_x [Suc 0, 0] = 1"
  "item pauli_x [Suc 0, Suc 0] = 0"
  by (simp_all add: pauli_x_def matrix_of_def)

lemma valid_22: "valid_index [a, b] (replicate (2 * 1) 2) \<longleftrightarrow> a < 2 \<and> b < 2"
  by (simp add: numeral_2_eq_2)

lemma kc1:
  assumes "\<forall>idx. valid_index idx (replicate (2 * 1) 2) \<longrightarrow>
          item T idx = (if bits_index (take 1 idx) = 0 \<and> bits_index (drop 1 idx) = 0 then 1 else 0)"
  shows "kraus_conjugation 1 [0] [pauli_x] T [1, 1] = 1" "kraus_conjugation 1 [0] [pauli_x] T [0, 0] = 0"
proof -
  have T: "item T [0, 0] = 1" "item T [0, Suc 0] = 0" "item T [Suc 0, 0] = 0" "item T [Suc 0, Suc 0] = 0"
    using assms valid_22 by (simp_all add: bits_index_1)
  have p: "put_index (Suc 0) [0] [a] [b] idx = [a, b]" for a b idx
    by (simp add: put_index_def upt_rec)
  have s: "sub_index [a, b] [0] = [a]" "sub_index [a, b] (map (\<lambda>w. w + 1) [0]) = [b]" for a b :: nat
    by (simp_all add: sub_index_def)
  show "kraus_conjugation 1 [0] [pauli_x] T [1, 1] = 1"
    unfolding kraus_conjugation_def all_idx_rep1 s
    by (simp add: p T bits_index_1 pauli_x_items)
  show "kraus_conjugation 1 [0] [pauli_x] T [0, 0] = 0"
    unfolding kraus_conjugation_def all_idx_rep1 s
    by (simp add: p T bits_index_1 pauli_x_items)
qed

subsection \<open>The diagonal path and the probabilities\<close>

lemma diagonal_einsum:
  fixes N :: nat and W :: "nat list"
  assumes bW: "\<forall>w\<in>set W. w < N"
    and sE: "shape E = replicate (length W) 2"
    and sR: "shape rho = replicate (2 * N) 2"
    and sF: "shape F = replicate (length W) 2"
  shows "\<exists>T. qnp_einsum [W, [0..<2 * N], map (\<lambda>w. w + N) W] [0..<2 * N] [E, rho, F] = Inr T
     \<and> shape T = replicate (2 * N) 2
     \<and> (\<forall>idx. valid_index idx (replicate (2 * N) 2) \<longrightarrow>
          item T idx = item E (sub_index idx W) * item rho idx
                       * item F (sub_index idx (map (\<lambda>w. w + N) W)))"
proof -
  define col where "col = map (\<lambda>w. w + N) W"
  define subs where "subs = [W, [0..<2 * N], col]"
  define ops where "ops = [E, rho, F]"
  define D where "D = einsum_dims subs ops"
  define out where "out = [0..<2 * N]"
  have col_b: "\<forall>c\<in>set col. c < 2 * N" using bW by (auto simp: col_def)
  have D_eq: "D = zip W (replicate (length W) 2) @ zip [0..<2 * N] (replicate (2 * N) 2)
        @ zip col (replicate (length W) 2)"
    by (simp add: D_def einsum_dims_def subs_def ops_def sE sR sF col_def)
  have D_fun: "\<forall>(c, m)\<in>set D. m = (\<lambda>c. 2) c"
    unfolding D_eq by (auto dest!: zip_replicate_mem)
  have cs: "set (concat subs) = {0..<2 * N}"
    using bW col_b by (auto simp: subs_def)
  have D_keys: "fst ` set D = set (concat subs)"
  proof -
    have "length (concat subs) = length (concat (map shape ops))"
      by (simp add: subs_def ops_def sE sR sF col_def)
    then show ?thesis by (simp add: D_def einsum_dims_def flip: set_map)
  qed
  have lkD: "lookup D c = 2" if "c < 2 * N" for c
  proof -
    from that have "c \<in> fst ` set D" unfolding D_keys cs by simp
    from lookup_functional [OF D_fun this] show ?thesis .
  qed
  have chk1: "length subs = length ops" by (simp add: subs_def ops_def)
  have chk2: "list_all2 (\<lambda>s a. length s = length (shape a)) subs ops"
    by (simp add: subs_def ops_def sE sR sF col_def)
  have chk3: "list_all (\<lambda>(c, n). lookup D c = n) D"
    by (rule lookup_functional_all [OF D_fun])
  have chk4: "distinct out" "list_all (\<lambda>c. c \<in> set (concat subs)) out"
    unfolding cs by (simp_all add: out_def list_all_iff)
  have S: "einsum_summed subs out = []"
  proof -
    have "set (unique (concat subs)) = {0..<2 * N}" unfolding set_unique by (rule cs)
    then show ?thesis by (auto simp: einsum_summed_def out_def filter_empty_conv)
  qed
  have sh: "map (lookup D) out = replicate (2 * N) 2"
  proof -
    have "map (lookup D) out = map (\<lambda>c. 2) out"
      by (rule map_cong [OF refl]) (simp add: lkD out_def)
    then show ?thesis by (simp add: map_replicate_const out_def)
  qed
  have E0: "qnp_einsum subs out ops =
      Inr \<lparr>shape = replicate (2 * N) 2,
           item = (\<lambda>idx. einsum_term subs ops (zip out idx))\<rparr>"
    using chk1 chk2 chk3 chk4
    by (simp add: qnp_einsum_def D_def [symmetric] S sh)
  have tm: "einsum_term subs ops (zip out idx) =
      item E (sub_index idx W) * item rho idx * item F (sub_index idx col)"
    if vi: "valid_index idx (replicate (2 * N) 2)" for idx
  proof -
    have l: "length idx = 2 * N" using vi by (simp add: valid_index_length)
    have lk: "lookup (zip out idx) p = idx ! p" if "p < 2 * N" for p
      using lookup_zip [of out idx p] that l by (simp add: out_def index_of_upt)
    have m1: "map (lookup (zip out idx)) W = sub_index idx W"
      unfolding sub_index_def using bW by (intro map_cong [OF refl] lk) auto
    have m3: "map (lookup (zip out idx)) col = sub_index idx col"
      unfolding sub_index_def using col_b by (intro map_cong [OF refl] lk) auto
    have "map (lookup (zip out idx)) [0..<2 * N] = map ((!) idx) [0..<length idx]"
      unfolding l by (rule map_cong [OF refl]) (simp add: lk)
    then have m2: "map (lookup (zip out idx)) [0..<2 * N] = idx" by (simp add: map_nth)
    show ?thesis
      by (simp add: einsum_term_def subs_def ops_def m1 m2 m3 mult.assoc)
  qed
  show ?thesis
    using E0 tm by (auto simp: subs_def ops_def out_def col_def)
qed

lemma unravel_vector: "unravel_index n [m] = [n]"
  by simp

lemma apply_diagonal_unitary_correct:
  assumes mw: "map_wires d ws = Inr W"
    and st: "s_state d = Some rho" and sr: "shape rho = replicate (2 * num_wires d) 2"
    and se: "shape eigvals = [2 ^ length ws]"
    and small: "num_wires d \<le> 26"
  shows "\<exists>rho'. apply_diagonal_unitary d eigvals ws = Inr (d\<lparr>s_state := Some rho'\<rparr>)
     \<and> shape rho' = replicate (2 * num_wires d) 2
     \<and> (\<forall>idx. valid_index idx (replicate (2 * num_wires d) 2) \<longrightarrow>
          item rho' idx = diagonal_conjugation (num_wires d) W eigvals rho idx)"
proof -
  define N where "N = num_wires d"
  define L where "L = (!) ABC"
  define col where "col = map (\<lambda>w. w + N) W"
  define E where "E = \<lparr>shape = replicate (length W) 2,
      item = (\<lambda>idx. item eigvals (unravel_index (ravel_multi_index idx (replicate (length W) 2)) (shape eigvals)))\<rparr>"
  have lW: "length W = length ws" and bW: "\<forall>w\<in>set W. w < N"
    using map_wires_Inr [OF mw] by (simp_all add: N_def)
  have col_b: "\<forall>c\<in>set col. c < 2 * N" using bW by (auto simp: col_def)
  have rs: "reshape eigvals (replicate (length W) 2) = Inr E"
    by (simp add: reshape_def E_def se lW prod_list_replicate2)
  have sE: "shape E = replicate (length W) 2" by (simp add: E_def)
  have sF: "shape (qnp_conj E) = replicate (length W) 2" by (simp add: qnp_conj_def E_def)
  have sr': "shape rho = replicate (2 * N) 2" using sr by (simp add: N_def)
  have iE: "item E v = item eigvals [bits_index v]" if "length v = length W" for v
    using that by (simp add: E_def se bits_index_def)
  from diagonal_einsum [OF bW sE sr' sF]
  obtain T where
    Eq: "qnp_einsum [W, [0..<2 * N], col] [0..<2 * N] [E, rho, qnp_conj E] = Inr T"
    and sT: "shape T = replicate (2 * N) 2"
    and iT: "\<And>idx. valid_index idx (replicate (2 * N) 2) \<Longrightarrow>
          item T idx = item E (sub_index idx W) * item rho idx * item (qnp_conj E) (sub_index idx col)"
    unfolding col_def by blast
  have ti: "take (2 * num_wires d) ABC = map L [0..<2 * N]"
    using small by (simp add: take_nth length_ABC L_def N_def)
  have ri: "ABC_ARRAY_getitem W = Inr (map L W)"
    using bW small by (subst ABC_ARRAY_getitem_ok) (auto simp: L_def N_def)
  have ci: "ABC_ARRAY_getitem (map (\<lambda>w. w + num_wires d) W) = Inr (map L col)"
    using col_b small by (subst ABC_ARRAY_getitem_ok) (auto simp: L_def col_def N_def)
  have inj52: "inj_on L {..<52}" unfolding L_def by (rule inj_on_ABC)
  have EL: "qnp_einsum [map L W, map L [0..<2 * N], map L col] (map L [0..<2 * N])
      [E, rho, qnp_conj E] = Inr T"
  proof -
    have sub: "set (concat [W, [0..<2 * N], col]) \<union> set [0..<2 * N] \<subseteq> {..<52}"
      using bW col_b small by (auto simp: N_def)
    from einsum_relabel [OF inj_on_subset [OF inj52 sub], of "[E, rho, qnp_conj E]"] Eq
    show ?thesis by simp
  qed
  have app: "apply_diagonal_unitary d eigvals ws = Inr (d\<lparr>s_state := Some T\<rparr>)"
    unfolding apply_diagonal_unitary_def Let_def mw tryE_Inr rs ti ri ci st asarray_Some EL
    by (rule refl)
  have it: "item T idx = diagonal_conjugation N W eigvals rho idx"
    if vi: "valid_index idx (replicate (2 * N) 2)" for idx
    unfolding iT [OF vi] diagonal_conjugation_def col_def [symmetric]
    by (simp add: qnp_conj_def iE sub_index_def col_def)
  show ?thesis
    using app sT it by (auto simp: N_def)
qed

lemma analytic_probability_correct:
  assumes st: "s_state d = Some rho" and sr: "shape rho = replicate (2 * num_wires d) 2"
  shows "analytic_probability d None =
       Inr (Some (map (\<lambda>i. \<bar>Re (matrix_entry (num_wires d) rho i i)\<bar>) [0..<2 ^ num_wires d]))"
    and "map_wires d ws = Inr dw \<Longrightarrow> distinct dw \<Longrightarrow>
       analytic_probability d (Some ws) =
       Inr (Some (map (\<lambda>j. \<bar>Re (\<Sum>t\<leftarrow>all_idx (replicate (num_wires d - length dw) 2).
                              matrix_entry (num_wires d) rho (marginal_index (num_wires d) dw j t)
                                (marginal_index (num_wires d) dw j t))\<bar>) [0..<2 ^ length dw]))"
proof -
  define N where "N = num_wires d"
  define M where "M = \<lparr>shape = [2 ^ N, 2 ^ N],
      item = (\<lambda>idx. item rho (unravel_index (ravel_multi_index idx [2 ^ N, 2 ^ N]) (shape rho)))\<rparr>"
  define Dg where "Dg = \<lparr>shape = [min (2 ^ N) (2 ^ N)],
      item = (\<lambda>idx. case idx of [i] \<Rightarrow> item M [i, i] | _ \<Rightarrow> 0)\<rparr>"
  have rs: "reshape rho [2 ^ N, 2 ^ N] = Inr M"
    by (simp add: reshape_def M_def sr N_def prod_list_replicate2 power_add [symmetric] mult_2)
  have shM: "shape M = [2 ^ N, 2 ^ N]" by (simp add: M_def)
  have dg: "qnp_diagonal M = Inr Dg"
    by (simp add: qnp_diagonal_def shM Dg_def)
  have iDg: "item Dg [i] = matrix_entry N rho i i" for i
    by (simp add: Dg_def M_def matrix_entry_def sr N_def)
  have shDg: "shape Dg = [2 ^ N]" by (simp add: Dg_def)
  have fDg: "flat_item Dg i = matrix_entry N rho i i" for i
    by (simp add: flat_item_def shDg iDg)
  have abs_eq: "(let p = x in if p < 0 then - p else p) = \<bar>x\<bar>" for x :: real
    by (simp add: Let_def abs_if)
  show "analytic_probability d None =
       Inr (Some (map (\<lambda>i. \<bar>Re (matrix_entry (num_wires d) rho i i)\<bar>) [0..<2 ^ num_wires d]))"
    unfolding analytic_probability_def st option.case N_def [symmetric] rs bindE_Inr dg
      marginal_prob_def abs_eq
    by (simp add: fDg shDg)
  assume mw: "map_wires d ws = Inr dw" and dd: "distinct dw"
  define P where "P = \<lparr>shape = [2 ^ length dw],
      item = (\<lambda>idx. case idx of
         [j] \<Rightarrow> (\<Sum>t\<leftarrow>all_idx (replicate (N - length dw) 2).
                   item Dg [ravel_multi_index (place N dw (unravel_index j (replicate (length dw) 2)) t)
                              (replicate N 2)])
       | _ \<Rightarrow> 0)\<rparr>"
  have mp: "marginal_prob d Dg (Some ws) = Inr P"
    using dd by (simp add: marginal_prob_def mw N_def [symmetric] P_def)
  show "analytic_probability d (Some ws) =
       Inr (Some (map (\<lambda>j. \<bar>Re (\<Sum>t\<leftarrow>all_idx (replicate (num_wires d - length dw) 2).
                              matrix_entry (num_wires d) rho (marginal_index (num_wires d) dw j t)
                                (marginal_index (num_wires d) dw j t))\<bar>) [0..<2 ^ length dw]))"
    unfolding analytic_probability_def st option.case N_def [symmetric] rs bindE_Inr dg mp abs_eq
    by (simp add: flat_item_def P_def iDg marginal_index_def)
qed

lemma analytic_probability_None: "s_state d = None \<Longrightarrow> analytic_probability d ws = Inr None"
  by (simp add: analytic_probability_def)

lemma plus_device_facts:
  "num_wires plus_device = 1"
  "map_wires plus_device [wire 0] = Inr [0]"
  "s_state plus_device = Some (matrix_of [[1 / 2, 1 / 2], [1 / 2, 1 / 2]])"
  "shape (matrix_of [[1 / 2, 1 / 2], [1 / 2, 1 / 2]]) = replicate (2 * num_wires plus_device) 2"
proof -
  show nw: "num_wires plus_device = 1"
    using num_wires_fresh [of 1] by (simp add: plus_device_def num_wires_def)
  show "map_wires plus_device [wire 0] = Inr [0]"
    using mw1 map_wires_cong [of plus_device "fresh_device 1" "[wire 0]"]
    by (simp add: plus_device_def)
  show "s_state plus_device = Some (matrix_of [[1 / 2, 1 / 2], [1 / 2, 1 / 2]])"
    by (simp add: plus_device_def)
  show "shape (matrix_of [[1 / 2, 1 / 2], [1 / 2, 1 / 2]]) = replicate (2 * num_wires plus_device) 2"
    unfolding nw by (simp add: matrix_of_def numeral_2_eq_2)
qed

subsection \<open>The check of the order\<close>

lemma check_order_first:
  "i < length ops \<Longrightarrow> prep_name (ops ! i) \<noteq> None \<Longrightarrow> 0 < n + i \<Longrightarrow>
   \<exists>j nm. j \<le> i \<and> 0 < n + j \<and> prep_name (ops ! j) = Some nm \<and> check_order n ops = Some (order_error nm)"
proof (induction ops arbitrary: n i)
  case Nil
  then show ?case by simp
next
  case (Cons op ops)
  show ?case
  proof (cases "prep_name op")
    case None
    with Cons.prems obtain i' where i': "i = Suc i'"
      by (cases i) auto
    with Cons.prems have "i' < length ops" "prep_name (ops ! i') \<noteq> None" "0 < Suc n + i'"
      by auto
    from Cons.IH [OF this] obtain j nm where
      "j \<le> i'" "prep_name (ops ! j) = Some nm" "check_order (Suc n) ops = Some (order_error nm)"
      by blast
    with None i' show ?thesis
      by (intro exI [of _ "Suc j"] exI [of _ nm]) simp
  next
    case (Some nm)
    show ?thesis
    proof (cases "n > 0")
      case True
      with Some show ?thesis
        by (intro exI [of _ 0] exI [of _ nm]) simp
    next
      case False
      with Cons.prems obtain i' where i': "i = Suc i'"
        by (cases i) auto
      with Cons.prems have "i' < length ops" "prep_name (ops ! i') \<noteq> None" "0 < Suc n + i'"
        by auto
      from Cons.IH [OF this] obtain j nm' where
        "j \<le> i'" "prep_name (ops ! j) = Some nm'" "check_order (Suc n) ops = Some (order_error nm')"
        by blast
      with Some False i' show ?thesis
        by (intro exI [of _ "Suc j"] exI [of _ nm']) simp
    qed
  qed
qed

lemma check_order_none:
  "list_all (\<lambda>op. prep_name op = None) ops \<Longrightarrow> check_order n ops = None"
  by (induction ops arbitrary: n) auto

subsection \<open>Steps of the preparation of a density matrix\<close>

lemma Inr_projr: "\<not> isl x \<Longrightarrow> x = Inr (projr x)"
  by (cases x) auto

lemma apply_density_matrix_full_steps:
  assumes "map_wires d ws = Inr dw"
    and "reshape st [prod_list (shape st)] = Inr v"
    and "hd (shape v) = (2 ^ length dw) ^ 2"
    and "reshape v [2 ^ length dw, 2 ^ length dw] = Inr mat"
    and "qnp_trace mat = Inr t1" and "qnp_allclose t1 1 tolerance"
    and "length dw = num_wires d \<and> sort dw = dw"
    and "reshape v (replicate (2 * num_wires d) 2) = Inr rho"
  shows "apply_density_matrix d st ws = Inr (d\<lparr>s_state := Some rho, s_pre_rotated_state := Some rho\<rparr>)"
  using assms by (simp add: apply_density_matrix_def Let_def)

lemma apply_density_matrix_partial_steps:
  assumes "map_wires d ws = Inr dw"
    and "reshape st [prod_list (shape st)] = Inr v"
    and "hd (shape v) = (2 ^ length dw) ^ 2"
    and "reshape v [2 ^ length dw, 2 ^ length dw] = Inr mat"
    and "qnp_trace mat = Inr t1" and "qnp_allclose t1 1 tolerance"
    and "\<not> (length dw = num_wires d \<and> sort dw = dw)"
    and "density_matrix d (map (\<lambda>i. IntLabel (int i)) (filter (\<lambda>i. i \<notin> set dw) [0..<num_wires d])) = Inr sigma"
    and "qnp_kron sigma mat = Inr rho1"
    and "reshape rho1 (replicate (2 * num_wires d) 2) = Inr rho2"
    and "qnp_transpose_axes rho2
           (left_axes (num_wires d) dw (filter (\<lambda>i. i \<notin> set dw) [0..<num_wires d])
            @ right_axes (num_wires d) dw (filter (\<lambda>i. i \<notin> set dw) [0..<num_wires d])) = Inr rho3"
    and "reshape rho3 [2 ^ num_wires d, 2 ^ num_wires d] = Inr m"
    and "qnp_trace m = Inr t2" and "qnp_allclose t2 1 tolerance"
  shows "apply_density_matrix d st ws = Inr (d\<lparr>s_state := Some rho3, s_pre_rotated_state := Some rho3\<rparr>)"
proof -
  from assms(7) have nf: "(length dw = num_wires d \<and> sort dw = dw) = False" by simp
  show ?thesis
    using assms(1-6) assms(8-14) by (simp add: apply_density_matrix_def Let_def nf)
qed

lemma allclose_1: "qnp_allclose 1 1 tolerance"
  by (simp add: qnp_allclose_def tolerance_def)

lemma apply_gate_numpy:
  "length ws \<le> 2 \<Longrightarrow> apply_operation numpy_interface d (Gate u ws) = apply_channel d [u] ws"
  by (simp add: use_tensordot_def numpy_interface_def)

lemma device_apply_steps:
  assumes "check_order 0 ops = None"
    and "apply_operations gi d ops = Inr d1"
    and "\<not> truthy (readout_err d1)"
  shows "device_apply gi d ops [] = Inr (d1\<lparr>s_pre_rotated_state := s_state d1\<rparr>)"
  using assms by (simp add: device_apply_def)

text \<open>The device of one wire after Pauli X, and the projector written to it.\<close>

lemma x_then_ket0:
  "\<exists>d1 rho. apply_channel (fresh_device 1) [pauli_x] [wire 0] = Inr d1
     \<and> apply_density_matrix d1 ket0 [wire 0] = Inr (d1\<lparr>s_state := Some rho, s_pre_rotated_state := Some rho\<rparr>)
     \<and> readout_err d1 = None
     \<and> item (the (s_state d1)) [1, 1] = 1
     \<and> item rho [0, 0] = 1 \<and> item rho [1, 1] = 0"
proof -
  define d1 where "d1 = projr (apply_channel (fresh_device 1) [pauli_x] [wire 0])"
  define v where "v = projr (reshape ket0 [prod_list (shape ket0)])"
  define mat where "mat = projr (reshape v [2 ^ length [0::nat], 2 ^ length [0::nat]])"
  define rho where "rho = projr (reshape v (replicate (2 * num_wires d1) 2))"
  have a: "apply_channel (fresh_device 1) [pauli_x] [wire 0] = Inr d1"
    unfolding d1_def by (rule Inr_projr) code_simp
  have mw: "map_wires d1 [wire 0] = Inr [0]"
    unfolding d1_def by code_simp
  have r1: "reshape ket0 [prod_list (shape ket0)] = Inr v"
    unfolding v_def by (rule Inr_projr) code_simp
  have hd: "hd (shape v) = (2 ^ length [0::nat]) ^ 2"
    unfolding v_def by code_simp
  have r2: "reshape v [2 ^ length [0::nat], 2 ^ length [0::nat]] = Inr mat"
    unfolding mat_def v_def by (rule Inr_projr) code_simp
  have tr: "qnp_trace mat = Inr 1"
    unfolding mat_def v_def by code_simp
  have full: "length [0::nat] = num_wires d1 \<and> sort [0::nat] = [0]"
    unfolding d1_def by code_simp
  have r3: "reshape v (replicate (2 * num_wires d1) 2) = Inr rho"
    unfolding rho_def v_def d1_def by (rule Inr_projr) code_simp
  have re: "readout_err d1 = None"
    unfolding d1_def by code_simp
  have i1: "item (the (s_state d1)) [1, 1] = 1"
    unfolding d1_def by code_simp
  have i2: "item rho [0, 0] = 1" "item rho [1, 1] = 0"
    unfolding rho_def v_def d1_def by code_simp+
  from apply_density_matrix_full_steps [OF mw r1 hd r2 tr allclose_1 full r3] a re i1 i2
  show ?thesis by blast
qed

subsection \<open>Snapshots\<close>

lemma reshape_matrix:
  assumes "shape st = replicate (2 * n) 2"
  shows "\<exists>dm. reshape st [2 ^ n, 2 ^ n] = Inr dm \<and> shape dm = [2 ^ n, 2 ^ n]"
  using assms by (simp add: reshape_def prod_list_replicate2 power_add [symmetric] mult_2)

lemma snapshot_inactive:
  assumes "s_debugger d = None \<or> (\<exists>dbg. s_debugger d = Some dbg \<and> \<not> active dbg)"
  shows "apply_operation gi d (Snapshot tag m) = Inr d"
  using assms by auto

lemma snapshot_measurements_restores:
  assumes "snapshot_measurements gi d dm m = Inr (res, d')"
  shows "s_state d' = s_state d \<and> s_pre_rotated_state d' = s_state d"
proof -
  obtain c ws gates ev base rw where m: "m = MP c ws gates ev base rw" by (cases m)
  from assms show ?thesis
    unfolding m snapshot_measurements.simps Let_def tryE_def
    by (auto split: sum.splits)
qed

lemma snapshot_restores:
  assumes "s_debugger d = Some dbg" and "active dbg"
    and "apply_operation gi d (Snapshot tag m) = Inr d'"
  shows "s_state d' = s_state d \<and> s_pre_rotated_state d' = s_state d"
proof -
  let ?r = "reshape (asarray (s_state d)) [2 ^ num_wires d, 2 ^ num_wires d]"
  from assms obtain dm where dm: "?r = Inr dm"
    by (cases ?r) (auto simp: tryE_def)
  from assms dm obtain res d2 where sm: "snapshot_measurements gi d dm m = Inr (res, d2)"
    by (cases "snapshot_measurements gi d dm m") auto
  from snapshot_measurements_restores [OF sm]
  have r: "s_state d2 = s_state d" "s_pre_rotated_state d2 = s_state d" by simp_all
  from assms dm sm have "d' = d2 \<or> (\<exists>x. d' = d2\<lparr>s_debugger := x\<rparr>)"
    by (cases "s_debugger d2") auto
  with r show ?thesis by auto
qed

lemma snapshot_unsupported:
  assumes "s_debugger d = Some dbg" and "active dbg"
    and "s_state d = Some st" and "shape st = replicate (2 * num_wires d) 2"
    and "c = SampleMP \<or> c = CountsMP"
  shows "apply_operation gi d (Snapshot tag (MP c ws gates ev base rw)) =
     Inl (DeviceError (''Snapshots of '' @ type_repr c @ '' are not yet supported on default.mixed''), d)"
proof -
  from reshape_matrix [OF assms(4)]
  obtain dm where dm: "reshape st [2 ^ num_wires d, 2 ^ num_wires d] = Inr dm" by blast
  have sv: "snap_value d dm c mw ev base rw =
      Inl (DeviceError (''Snapshots of '' @ type_repr c @ '' are not yet supported on default.mixed''))" for mw
    using assms(5) by (auto simp: snap_value_def)
  have "snapshot_measurements gi d dm (MP c ws gates ev base rw) =
      Inl (DeviceError (''Snapshots of '' @ type_repr c @ '' are not yet supported on default.mixed''), d)"
    using assms(5) by (auto simp: sv Let_def)
  with assms(1-3) dm show ?thesis by simp
qed

lemma apply_snapshot_steps:
  assumes "s_debugger d = Some dbg" and "active dbg"
    and "s_state d = Some st"
    and "reshape st [2 ^ num_wires d, 2 ^ num_wires d] = Inr dm"
    and "(if c = ProbabilityMP \<or> c = ExpectationMP \<or> c = VarianceMP
          then apply_operations gi d gates else Inr d) = Inr d1"
    and "snap_value d1 dm c (if ws = [] then wires d else ws) ev base rw = Inr res"
  shows "\<exists>d'. apply_operation gi d (Snapshot tag (MP c ws gates ev base rw)) = Inr d'
     \<and> (\<exists>dbg'. s_debugger d' = Some dbg' \<and> res \<in> snd ` set (snapshots dbg') \<or> s_debugger d1 = None)"
proof -
  have sm: "snapshot_measurements gi d dm (MP c ws gates ev base rw) =
      Inr (res, d1\<lparr>s_state := s_state d, s_pre_rotated_state := s_state d\<rparr>)"
    using assms(5,6) by (simp add: Let_def)
  show ?thesis
  proof (cases "s_debugger d1")
    case None
    with assms(1-4) sm show ?thesis by simp
  next
    case (Some dbg1)
    have "res \<in> snd ` set (dict_set k res xs)" for k and xs :: "(snap_key \<times> snap_result) list"
      by (force simp: dict_set_def image_iff)
    with assms(1-4) sm Some show ?thesis by simp
  qed
qed

text \<open>Pauli X on a device of one wire exchanges the rows and the columns of the state.\<close>

lemma pauli_x_conjugation:
  assumes "a < 2" and "b < 2"
  shows "kraus_conjugation 1 [0] [pauli_x] T [a, b] = item T [1 - a, 1 - b]"
proof -
  have p: "put_index (Suc 0) [0] [x] [y] idx = [x, y]" for x y idx
    by (simp add: put_index_def upt_rec)
  have s: "sub_index [x, y] [0] = [x]" "sub_index [x, y] (map (\<lambda>w. w + 1) [0]) = [y]" for x y :: nat
    by (simp_all add: sub_index_def)
  from assms have "a = 0 \<or> a = Suc 0" "b = 0 \<or> b = Suc 0" by auto
  then show ?thesis
    unfolding kraus_conjugation_def all_idx_rep1 s
    by (auto simp: p bits_index_1 pauli_x_items)
qed

lemma pauli_x_one_wire:
  assumes w: "wires d = [wire 0]" and st: "s_state d = Some T" and sh: "shape T = replicate (2 * 1) 2"
  shows "\<exists>rho'. apply_channel d [pauli_x] [wire 0] = Inr (d\<lparr>s_state := Some rho'\<rparr>)
     \<and> shape rho' = replicate (2 * 1) 2
     \<and> (\<forall>a b. a < 2 \<and> b < 2 \<longrightarrow> item rho' [a, b] = item T [1 - a, 1 - b])"
proof -
  have nw: "num_wires d = 1" by (simp add: num_wires_def w)
  have mw: "map_wires d [wire 0] = Inr [0]" by (simp add: map_wires_def w)
  have h1: "distinct [wire 0]" by simp
  have h2: "shape T = replicate (2 * num_wires d) 2" using sh nw by simp
  have h3: "[pauli_x] \<noteq> []" by simp
  have h4: "\<forall>K\<in>set [pauli_x]. shape K = [2 ^ length [wire 0], 2 ^ length [wire 0]]"
    by (simp add: pauli_x_items)
  have h5: "2 * num_wires d + 2 * length [wire 0] + 1 \<le> 52" using nw by simp
  from apply_channel_correct [OF mw h1 st h2 h3 h4 h5]
  obtain rho' where r: "apply_channel d [pauli_x] [wire 0] = Inr (d\<lparr>s_state := Some rho'\<rparr>)"
    "shape rho' = replicate (2 * 1) 2"
    "\<forall>idx. valid_index idx (replicate (2 * 1) 2) \<longrightarrow>
          item rho' idx = kraus_conjugation 1 [0] [pauli_x] T idx"
    unfolding nw by blast
  have "item rho' [a, b] = item T [1 - a, 1 - b]" if "a < 2" "b < 2" for a b
    using r(3) that valid_22 pauli_x_conjugation [OF that] by simp
  with r(1,2) show ?thesis by blast
qed

lemma debug_device_facts:
  "wires (debug_device 1) = [wire 0]"
  "num_wires (debug_device 1) = 1"
  "s_debugger (debug_device 1) = Some \<lparr>active = True, snapshots = []\<rparr>"
  "\<exists>T. s_state (debug_device 1) = Some T \<and> s_pre_rotated_state (debug_device 1) = Some T
     \<and> shape T = replicate (2 * 1) 2 \<and> item T [0, 0] = 1 \<and> item T [1, 1] = 0"
proof -
  show w: "wires (debug_device 1) = [wire 0]"
    using wires_fresh [of 1] by (simp add: debug_device_def wire_def)
  then show "num_wires (debug_device 1) = 1" by (simp add: num_wires_def)
  show "s_debugger (debug_device 1) = Some \<lparr>active = True, snapshots = []\<rparr>"
    by (simp add: debug_device_def)
  from state_fresh [of 1] obtain T where T: "s_state (fresh_device 1) = Some T"
    "s_pre_rotated_state (fresh_device 1) = Some T" "shape T = replicate (2 * 1) 2"
    "\<forall>idx. valid_index idx (replicate (2 * 1) 2) \<longrightarrow>
          item T idx = (if bits_index (take 1 idx) = 0 \<and> bits_index (drop 1 idx) = 0 then 1 else 0)"
    by auto
  have "item T [0, 0] = 1" "item T [1, 1] = 0"
    using T(4) valid_22 by (simp_all add: bits_index_1)
  with T(1-3) show "\<exists>T. s_state (debug_device 1) = Some T \<and> s_pre_rotated_state (debug_device 1) = Some T
     \<and> shape T = replicate (2 * 1) 2 \<and> item T [0, 0] = 1 \<and> item T [1, 1] = 0"
    by (simp add: debug_device_def)
qed

subsection \<open>The basis state\<close>

lemma sum_pow2_int: "(\<Sum>i<n. (2::int) ^ i) = 2 ^ n - 1"
  by (induction n) simp_all

lemma sum_pow2_rev: "(\<Sum>w<N. (2::int) ^ (N - 1 - w)) = 2 ^ N - 1"
proof -
  have "(\<Sum>w<N. (2::int) ^ (N - 1 - w)) = (\<Sum>w<N. (2::int) ^ (N - Suc w))" by simp
  also have "\<dots> = (\<Sum>i<N. (2::int) ^ i)" by (rule sum.nat_diff_reindex)
  finally show ?thesis by (simp add: sum_pow2_int)
qed

lemma weighted_bits_le:
  assumes "list_all (\<lambda>b. b = 0 \<or> b = 1) bits"
  shows "0 \<le> (\<Sum>(b, w)\<leftarrow>zip bits dw. b * (2::int) ^ (N - 1 - w))
     \<and> (\<Sum>(b, w)\<leftarrow>zip bits dw. b * (2::int) ^ (N - 1 - w)) \<le> (\<Sum>w\<leftarrow>dw. 2 ^ (N - 1 - w))"
  using assms
proof (induction bits arbitrary: dw)
  case Nil
  have "0 \<le> (\<Sum>w\<leftarrow>dw. (2::int) ^ (N - 1 - w))" by (rule sum_list_nonneg) auto
  then show ?case by simp
next
  case (Cons b bits)
  show ?case
  proof (cases dw)
    case Nil
    then show ?thesis by simp
  next
    case (Cons w ws)
    from Cons.prems have b: "b = 0 \<or> b = 1" and r: "list_all (\<lambda>b. b = 0 \<or> b = 1) bits" by auto
    define P where "P = (2::int) ^ (N - 1 - w)"
    define S where "S = (\<Sum>(b, w)\<leftarrow>zip bits ws. b * (2::int) ^ (N - 1 - w))"
    define R where "R = (\<Sum>w\<leftarrow>ws. (2::int) ^ (N - 1 - w))"
    have e1: "(\<Sum>(b, w)\<leftarrow>zip (b # bits) (w # ws). b * (2::int) ^ (N - 1 - w)) = b * P + S"
      by (simp add: P_def S_def)
    have e2: "(\<Sum>w\<leftarrow>w # ws. (2::int) ^ (N - 1 - w)) = P + R"
      by (simp add: P_def R_def)
    have q: "0 \<le> b * P" "b * P \<le> P" using b by (auto simp: P_def)
    from Cons.IH [OF r, of ws] have ih: "0 \<le> S" "S \<le> R" by (simp_all add: S_def R_def)
    show ?thesis unfolding Cons e1 e2 using q ih by linarith
  qed
qed

lemma basis_index_lt:
  assumes "list_all (\<lambda>b. b = 0 \<or> b = 1) bits" and "distinct dw" and "\<forall>w\<in>set dw. w < N"
  shows "basis_index N dw bits < 2 ^ N"
proof -
  let ?S = "\<Sum>(b, w)\<leftarrow>zip bits dw. b * (2::int) ^ (N - 1 - w)"
  from weighted_bits_le [OF assms(1), where dw = dw and N = N]
  have s0: "0 \<le> ?S" and s1: "?S \<le> (\<Sum>w\<leftarrow>dw. 2 ^ (N - 1 - w))" by auto
  have "(\<Sum>w\<leftarrow>dw. (2::int) ^ (N - 1 - w)) = (\<Sum>w\<in>set dw. 2 ^ (N - 1 - w))"
    using assms(2) by (simp add: sum_list_distinct_conv_sum_set)
  also have "\<dots> \<le> (\<Sum>w<N. 2 ^ (N - 1 - w))"
    by (rule sum_mono2) (use assms(3) in auto)
  also have "\<dots> = 2 ^ N - 1" by (rule sum_pow2_rev)
  finally have "?S < 2 ^ N" using s1 by simp
  with s0 have "nat ?S < nat (2 ^ N)" by simp
  then show ?thesis by (simp add: basis_index_def)
qed

lemma apply_basis_state_errors:
  assumes "map_wires d ws = Inr dw"
  shows "\<not> list_all (\<lambda>b. b = 0 \<or> b = 1) bits \<Longrightarrow>
      apply_basis_state d bits ws =
        Inl (ValueError ''BasisState parameter must consist of 0 or 1 integers.'', d)"
    and "list_all (\<lambda>b. b = 0 \<or> b = 1) bits \<Longrightarrow> length bits \<noteq> length ws \<Longrightarrow>
      apply_basis_state d bits ws =
        Inl (ValueError ''BasisState parameter and wires must be of equal length.'', d)"
  using assms map_wires_Inr(4) [OF assms]
  by (simp_all add: apply_basis_state_def raiseE_def)

lemma apply_basis_state_correct:
  assumes mw: "map_wires d ws = Inr dw" and dws: "distinct ws"
    and ok: "list_all (\<lambda>b. b = 0 \<or> b = 1) bits" and len: "length bits = length ws"
  shows "\<exists>rho'. apply_basis_state d bits ws = Inr (d\<lparr>s_state := Some rho'\<rparr>)
     \<and> shape rho' = replicate (2 * num_wires d) 2
     \<and> (\<forall>idx. valid_index idx (replicate (2 * num_wires d) 2) \<longrightarrow>
          item rho' idx =
            (if bits_index (take (num_wires d) idx) = basis_index (num_wires d) dw bits
                \<and> bits_index (drop (num_wires d) idx) = basis_index (num_wires d) dw bits
             then 1 else 0))"
proof -
  define N where "N = num_wires d"
  have lW: "length dw = length ws" and bW: "\<forall>w\<in>set dw. w < N"
    using map_wires_Inr [OF mw] by (simp_all add: N_def)
  have dW: "distinct dw" by (rule map_wires_distinct [OF mw dws])
  have "map (\<lambda>(b, p). b * p) (zip bits (map (\<lambda>w. (2::int) ^ (num_wires d - 1 - w)) dw))
      = map (\<lambda>(b, w). b * 2 ^ (N - 1 - w)) (zip bits dw)"
    unfolding N_def zip_map2 by (simp add: case_prod_unfold)
  then have num: "nat (\<Sum>(b, p)\<leftarrow>zip bits (map (\<lambda>w. (2::int) ^ (num_wires d - 1 - w)) dw). b * p)
      = basis_index N dw bits"
    by (simp only: basis_index_def)
  from basis_index_lt [OF ok dW bW] have lt: "basis_index N dw bits < 2 ^ num_wires d"
    by (simp add: N_def)
  from create_basis_state_ok [OF lt] obtain T where
    T: "create_basis_state d (basis_index N dw bits) = Inr T"
      "shape T = replicate (2 * num_wires d) 2"
      "\<forall>idx. valid_index idx (replicate (2 * num_wires d) 2) \<longrightarrow>
          item T idx = (if bits_index (take (num_wires d) idx) = basis_index N dw bits
                           \<and> bits_index (drop (num_wires d) idx) = basis_index N dw bits then 1 else 0)"
    by blast
  have "apply_basis_state d bits ws = Inr (d\<lparr>s_state := Some T\<rparr>)"
    unfolding apply_basis_state_def Let_def mw tryE_Inr num T(1)
    using ok len lW by simp
  with T(2,3) show ?thesis unfolding N_def by blast
qed

text \<open>The reduced density matrix over all wires, in their order, is the state as a matrix.\<close>

lemma place_all: "length v = n \<Longrightarrow> place n [0..<n] v f = v"
  unfolding place_def
  by (rule nth_equalityI) (simp_all add: index_of_upt)

lemma ravel_two: "j < m \<Longrightarrow> unravel_index (ravel_multi_index [i, j] [m, m]) shp = unravel_index (i * m + j) shp"
  by simp

lemma density_matrix_full:
  assumes pr: "s_pre_rotated_state d = Some T" and sh: "shape T = replicate (2 * num_wires d) 2"
    and mw: "map_wires d ws = Inr [0..<num_wires d]"
  shows "\<exists>M. density_matrix d ws = Inr M \<and> shape M = [2 ^ num_wires d, 2 ^ num_wires d]
     \<and> (\<forall>i j. i < 2 ^ num_wires d \<and> j < 2 ^ num_wires d \<longrightarrow>
          item M [i, j] = matrix_entry (num_wires d) T i j)"
proof -
  define N where "N = num_wires d"
  define St where "St = \<lparr>shape = [2 ^ N, 2 ^ N],
      item = (\<lambda>idx. item T (unravel_index (ravel_multi_index idx [2 ^ N, 2 ^ N]) (shape T)))\<rparr>"
  have st: "state d = Inr St"
    by (simp add: state_def pr reshape_def sh St_def N_def prod_list_replicate2 power_add [symmetric] mult_2)
  have iSt: "item St [i, j] = matrix_entry N T i j" for i j
    by (simp add: St_def matrix_entry_def sh N_def)
  define M where "M = \<lparr>shape = [2 ^ length [0..<N], 2 ^ length [0..<N]],
                item = (\<lambda>idx. case idx of
                   [i, j] \<Rightarrow>
                     (\<Sum>t\<leftarrow>all_idx (replicate (N - length [0..<N]) 2).
                        item St
                          [ravel_multi_index
                             (place N [0..<N] (unravel_index i (replicate (length [0..<N]) 2)) t)
                             (replicate N 2),
                           ravel_multi_index
                             (place N [0..<N] (unravel_index j (replicate (length [0..<N]) 2)) t)
                             (replicate N 2)])
                 | _ \<Rightarrow> 0)\<rparr>"
  have cond: "shape St = [2 ^ N, 2 ^ N] \<and> distinct [0..<N] \<and> list_all (\<lambda>x. x < N) [0..<N]"
    by (simp add: St_def list_all_iff)
  have rd: "reduce_dm N St [0..<N] = Inr M"
    unfolding reduce_dm_def M_def by (simp only: cond if_True HOL.simp_thms)
  have dm: "density_matrix d ws = Inr M"
    by (simp add: density_matrix_def st mw N_def [symmetric] rd)
  have rr: "ravel_multi_index (place N [0..<N] (unravel_index i (replicate N 2)) []) (replicate N 2) = i"
    if "i < 2 ^ N" for i
  proof -
    have v: "valid_index (unravel_index i (replicate N 2)) (replicate N 2)"
      by (rule valid_unravel) (simp add: prod_list_replicate2 that)
    from valid_index_length [OF v] have "length (unravel_index i (replicate N 2)) = N" by simp
    then have "place N [0..<N] (unravel_index i (replicate N 2)) [] = unravel_index i (replicate N 2)"
      by (rule place_all)
    then show ?thesis using ravel_unravel [of i "replicate N 2"] that
      by (simp add: prod_list_replicate2)
  qed
  have "item M [i, j] = matrix_entry N T i j" if "i < 2 ^ N" "j < 2 ^ N" for i j
    using that by (simp add: M_def rr iSt)
  moreover have "shape M = [2 ^ N, 2 ^ N]" by (simp add: M_def)
  ultimately show ?thesis using dm unfolding N_def by blast
qed

lemma matrix_entry_basis:
  assumes T: "\<forall>idx. valid_index idx (replicate (2 * N) 2) \<longrightarrow>
          item T idx = (if bits_index (take N idx) = k \<and> bits_index (drop N idx) = k then 1 else 0)"
    and i: "i < 2 ^ N" and j: "j < 2 ^ N"
  shows "matrix_entry N T i j = (if i = k \<and> j = k then 1 else 0)"
proof -
  define n where "n = i * 2 ^ N + j"
  define idx where "idx = unravel_index n (replicate (2 * N) 2)"
  have "i * 2 ^ N + j < i * 2 ^ N + 2 ^ N" using j by simp
  also have "\<dots> = Suc i * 2 ^ N" by simp
  also have "\<dots> \<le> 2 ^ N * 2 ^ N" using mult_le_mono1 [of "Suc i" "2 ^ N" "2 ^ N"] i by simp
  finally have nlt: "n < prod_list (replicate (2 * N) 2)"
    by (simp add: n_def prod_list_replicate2 power_add [symmetric] mult_2)
  have v: "valid_index idx (replicate (2 * N) 2)"
    unfolding idx_def by (rule valid_unravel [OF nlt])
  have "[bits_index (take N idx), bits_index (drop N idx)]
      = unravel_index (ravel_multi_index idx (replicate (2 * N) 2)) [2 ^ N, 2 ^ N]"
    using ravel_matrix_idx [OF v] by simp
  also have "ravel_multi_index idx (replicate (2 * N) 2) = n"
    unfolding idx_def by (rule ravel_unravel [OF nlt])
  also have "unravel_index n [2 ^ N, 2 ^ N] = [i, j]"
    using j by (simp add: n_def)
  finally have b: "bits_index (take N idx) = i" "bits_index (drop N idx) = j" by simp_all
  from T v b show ?thesis
    by (simp add: matrix_entry_def n_def [symmetric] idx_def [symmetric])
qed

lemma basis_state_round_trip:
  assumes mw: "map_wires d ws = Inr dw" and dws: "distinct ws"
    and ok: "list_all (\<lambda>b. b = 0 \<or> b = 1) bits" and len: "length bits = length ws"
    and all: "map_wires d ws' = Inr [0..<num_wires d]"
    and re: "\<not> truthy (readout_err d)"
  shows "\<exists>d' M. device_apply gi d [BasisState bits ws] [] = Inr d'
     \<and> density_matrix d' ws' = Inr M \<and> shape M = [2 ^ num_wires d, 2 ^ num_wires d]
     \<and> (\<forall>i j. i < 2 ^ num_wires d \<and> j < 2 ^ num_wires d \<longrightarrow>
          item M [i, j] =
            (if i = basis_index (num_wires d) dw bits \<and> j = basis_index (num_wires d) dw bits
             then 1 else 0))"
proof -
  from apply_basis_state_correct [OF mw dws ok len] obtain rho' where
    r: "apply_basis_state d bits ws = Inr (d\<lparr>s_state := Some rho'\<rparr>)"
      "shape rho' = replicate (2 * num_wires d) 2"
      "\<forall>idx. valid_index idx (replicate (2 * num_wires d) 2) \<longrightarrow>
          item rho' idx =
            (if bits_index (take (num_wires d) idx) = basis_index (num_wires d) dw bits
                \<and> bits_index (drop (num_wires d) idx) = basis_index (num_wires d) dw bits
             then 1 else 0)"
    by blast
  define d' where "d' = d\<lparr>s_state := Some rho', s_pre_rotated_state := Some rho'\<rparr>"
  have da: "device_apply gi d [BasisState bits ws] [] = Inr d'"
    using re by (simp add: device_apply_def r(1) d'_def)
  have nw: "num_wires d' = num_wires d" by (simp add: d'_def num_wires_def)
  have pr: "s_pre_rotated_state d' = Some rho'" by (simp add: d'_def)
  have sh: "shape rho' = replicate (2 * num_wires d') 2" using r(2) nw by simp
  have "map_wires d' ws' = map_wires d ws'" by (rule map_wires_cong) (simp add: d'_def)
  with all nw have mw': "map_wires d' ws' = Inr [0..<num_wires d']" by simp
  from density_matrix_full [OF pr sh mw'] obtain M where
    M: "density_matrix d' ws' = Inr M" "shape M = [2 ^ num_wires d, 2 ^ num_wires d]"
      "\<forall>i j. i < 2 ^ num_wires d \<and> j < 2 ^ num_wires d \<longrightarrow>
          item M [i, j] = matrix_entry (num_wires d) rho' i j"
    unfolding nw by blast
  have "item M [i, j] =
      (if i = basis_index (num_wires d) dw bits \<and> j = basis_index (num_wires d) dw bits then 1 else 0)"
    if "i < 2 ^ num_wires d" "j < 2 ^ num_wires d" for i j
    using M(3) that matrix_entry_basis [OF r(3) that] by simp
  with da M(1,2) show ?thesis by blast
qed

subsection \<open>The density matrix on a part of the wires\<close>

lemma density_matrix_cong:
  "wires d = wires d' \<Longrightarrow> s_pre_rotated_state d = s_pre_rotated_state d' \<Longrightarrow>
   density_matrix d ws = density_matrix d' ws"
  by (simp add: density_matrix_def state_def map_wires_def num_wires_def)

lemma tensors_after_tryE:
  "tensors_after (tryE d m f) = (case m of Inl e \<Rightarrow> Inl e | Inr x \<Rightarrow> tensors_after (f x))"
  by (cases m) (simp_all add: tensors_after_def)

lemma tensors_after_if:
  "tensors_after (if c then x else y) = (if c then tensors_after x else tensors_after y)"
  by simp

lemma apply_density_matrix_working_tensor:
  "tensors_after (apply_density_matrix (d\<lparr>s_state := a\<rparr>) M ws)
   = tensors_after (apply_density_matrix d M ws)"
proof -
  let ?d = "d\<lparr>s_state := a\<rparr>"
  have mw: "map_wires ?d ws = map_wires d ws" by (rule map_wires_cong) simp
  have nw: "num_wires ?d = num_wires d" by (simp add: num_wires_def)
  have dm: "density_matrix ?d xs = density_matrix d xs" for xs
    by (rule density_matrix_cong) simp_all
  have r: "tensors_after (raiseE ?d e) = tensors_after (raiseE d e)" for e
    by (simp add: tensors_after_def raiseE_def)
  have i: "tensors_after (Inr (?d\<lparr>s_state := Some x, s_pre_rotated_state := Some x\<rparr>))
      = tensors_after (Inr (d\<lparr>s_state := Some x, s_pre_rotated_state := Some x\<rparr>))" for x
    by (simp add: tensors_after_def)
  show ?thesis
    unfolding apply_density_matrix_def Let_def tensors_after_tryE tensors_after_if mw nw dm r i
    by (rule refl)
qed
section \<open>Construction: the limit on the number of wires\<close>

lemma distinct_labels24: "distinct labels24"
  by (simp add: labels24_def wire_def)

lemma labels24_range: "map (\<lambda>i. IntLabel (int i)) [0..<24] = labels24"
  by (simp add: labels24_def wire_def eval_nat_numeral)

text \<open>
  A wire count above 23 that is a Python \<open>int\<close> makes both constructors raise
  the \<open>ValueError\<close> of the wire limit.
\<close>

lemma init_int_limit:
  assumes "n > 23"
  shows "DefaultMixed_init (WiresInt n) p =
        Inl (ValueError ''This device does not currently support computations on more than 23 wires'')"
    and "DefaultMixedNewAPI_init (WiresInt n) p =
        Inl (ValueError ''This device does not currently support computations on more than 23 wires'')"
  using assms
  by (simp_all add: DefaultMixed_init_def DefaultMixedNewAPI_init_def init_checks_def bindE_def)

text \<open>
  Claim C4 does not hold of the code: the constructors compare the wires
  with the limit of 23, which their message states for the device, only if
  the argument is a Python \<open>int\<close>. A list of 24 labels and a NumPy integer 24
  pass the checks of both constructors, and the device of the new interface
  is constructed with 24 wires, where the Python \<open>int\<close> 24 raises.
\<close>

theorem init_wire_limit_unchecked:
  "init_checks (WiresList labels24) ProbNone = Inr None
   \<and> init_checks (WiresNpInt 24) ProbNone = Inr None
   \<and> DefaultMixedNewAPI_init (WiresList labels24) ProbNone =
       Inr \<lparr>nd_wires = Some labels24, nd_readout_err = None\<rparr>
   \<and> DefaultMixedNewAPI_init (WiresNpInt 24) ProbNone =
       Inr \<lparr>nd_wires = Some labels24, nd_readout_err = None\<rparr>
   \<and> length labels24 = 24
   \<and> DefaultMixedNewAPI_init (WiresInt 24) ProbNone =
       Inl (ValueError ''This device does not currently support computations on more than 23 wires'')"
proof -
  have a: "init_checks (WiresList labels24) ProbNone = Inr None"
    "init_checks (WiresNpInt 24) ProbNone = Inr None"
    by (simp_all add: init_checks_def)
  have b: "DefaultMixedNewAPI_init (WiresList labels24) ProbNone =
       Inr \<lparr>nd_wires = Some labels24, nd_readout_err = None\<rparr>"
    using distinct_labels24 by (simp add: DefaultMixedNewAPI_init_def a)
  have c: "DefaultMixedNewAPI_init (WiresNpInt 24) ProbNone =
       Inr \<lparr>nd_wires = Some labels24, nd_readout_err = None\<rparr>"
    by (simp add: DefaultMixedNewAPI_init_def a labels24_range)
  have d: "length labels24 = 24" by (simp add: labels24_def)
  from a b c d init_int_limit(2) [of 24 ProbNone] show ?thesis by simp
qed

section \<open>The wires subject to readout error\<close>

lemma scan_measurements_no_state:
  "\<not> list_ex (\<lambda>m. isinstance_StateMP (mp_cls m)) ms \<Longrightarrow>
   scan_measurements d ms acc =
     (if list_ex (full_register_sample d) ms then wires d
      else all_wires (acc @ map mp_wires (filter (\<lambda>m. \<not> entropy_mp m) ms)))"
proof (induction ms arbitrary: acc)
  case Nil
  show ?case by simp
next
  case (Cons m ms)
  then show ?case
    by (auto simp: full_register_sample_def entropy_mp_def)
qed

lemma scan_measurements_alone:
  assumes "state_measured_alone ms"
  shows "scan_measurements d ms [] = measured_wires_spec d ms"
proof (cases "list_ex (\<lambda>m. isinstance_StateMP (mp_cls m)) ms")
  case True
  with assms have "length ms = 1" by (simp add: state_measured_alone_def)
  then obtain m where ms: "ms = [m]" by (cases ms) auto
  with True show ?thesis by (simp add: measured_wires_spec_def)
next
  case False
  from scan_measurements_no_state [OF False, of d "[]"] False show ?thesis
    by (simp add: measured_wires_spec_def)
qed

text \<open>
  Claim C7, as the code has it: when the readout-error probability is set
  and not zero, and a state measurement is, as the loop assumes, the only
  measurement of its circuit, \<open>execute\<close> hands the device over with
  \<open>measured_wires\<close> empty if a measurement is a state measurement, all device
  wires if a sample or counts measurement is over the whole register or
  without wires, and otherwise the union, in order of first occurrence, of
  the wires of the measurements that are not entropies. When the
  probability is \<open>None\<close> or zero the device is handed over unchanged.
\<close>

theorem execute_measured_wires:
  "(truthy (readout_err d) \<and> state_measured_alone ms \<longrightarrow>
      execute f d ms = f (d\<lparr>measured_wires := measured_wires_spec d ms\<rparr>) ms)
   \<and> (\<not> truthy (readout_err d) \<longrightarrow> execute f d ms = f d ms)
   \<and> set (all_wires wss) = \<Union> (set ` set wss)"
  using scan_measurements_alone [of ms d]
  by (simp add: execute_def all_wires_def set_unique)

theorem execute_measured_wires_witness:
  "execute (\<lambda>d ms. measured_wires d) (bare_device [wire 0, wire 1, wire 2] (Some (1/2)))
     [expval_on [wire 2], MP VnEntropyMP [wire 1] [] [] None [], expval_on [wire 0, wire 2]]
     = [wire 2, wire 0]
   \<and> execute (\<lambda>d ms. measured_wires d) (bare_device [wire 0, wire 1] (Some (1/2)))
     [expval_on [wire 0], sample_all] = [wire 0, wire 1]
   \<and> execute (\<lambda>d ms. measured_wires d) (bare_device [wire 0, wire 1] (Some (1/2))) [state_mp] = []
   \<and> execute (\<lambda>d ms. measured_wires d) (bare_device [wire 0, wire 1] None) [sample_all] = []
   \<and> set (all_wires [[wire 1], [wire 0, wire 1]]) = {wire 0, wire 1}"
  using execute_measured_wires
    [of "bare_device [wire 0, wire 1, wire 2] (Some (1/2))"
        "[expval_on [wire 2], MP VnEntropyMP [wire 1] [] [] None [], expval_on [wire 0, wire 2]]"
        "\<lambda>d ms. measured_wires d" "[[wire 1], [wire 0, wire 1]]"]
    execute_measured_wires [of "bare_device [wire 0, wire 1] (Some (1/2))"
        "[expval_on [wire 0], sample_all]" "\<lambda>d ms. measured_wires d" "[]"]
    execute_measured_wires [of "bare_device [wire 0, wire 1] (Some (1/2))"
        "[state_mp]" "\<lambda>d ms. measured_wires d" "[]"]
    execute_measured_wires [of "bare_device [wire 0, wire 1] None" "[sample_all]"
        "\<lambda>d ms. measured_wires d" "[]"]
  by (simp add: truthy_def bare_device_def measured_wires_spec_def state_measured_alone_def
      expval_on_def sample_all_def state_mp_def isinstance_StateMP_def full_register_sample_def
      entropy_mp_def all_wires_def wire_def insert_commute)

text \<open>
  Claim C7 as stated fails for a probability configured as zero: the wires
  are not computed, and a sample over all wires leaves \<open>measured_wires\<close>
  empty, where the claim gives all device wires.
\<close>

theorem execute_measured_wires_counterexample:
  "execute (\<lambda>d ms. measured_wires d) (bare_device [wire 0, wire 1] (Some 0)) [sample_all] = []
   \<and> measured_wires_spec (bare_device [wire 0, wire 1] (Some 0)) [sample_all] = [wire 0, wire 1]"
  by (simp add: execute_def truthy_def bare_device_def sample_all_def measured_wires_spec_def
      isinstance_StateMP_def full_register_sample_def)

section \<open>The labelled contraction of a channel\<close>

text \<open>
  Claim C1, as the code has it: for Kraus operators \<open>Ks\<close> (one matrix for a
  unitary) of the shape of the target wires and target wires that the
  device maps to \<open>W\<close>, the labelled contraction replaces the state tensor
  \<open>\<rho>\<close> by \<open>\<Sum>\<^sub>i K\<^sub>i \<rho> K\<^sub>i\<^sup>\<dagger>\<close>, the operators contracted against the row
  axes of \<open>W\<close> and their adjoints against the column axes, every other
  axis unchanged -- provided the alphabet of 52 labels suffices, that is
  \<open>2 N + 2 |W| + 1 \<le> 52\<close>.
\<close>

theorem apply_channel_kraus_conjugation:
  assumes "map_wires d ws = Inr W" and "distinct ws"
    and "s_state d = Some rho" and "shape rho = replicate (2 * num_wires d) 2"
    and "Ks \<noteq> []" and "\<forall>K\<in>set Ks. shape K = [2 ^ length ws, 2 ^ length ws]"
    and "2 * num_wires d + 2 * length ws + 1 \<le> 52"
  shows "\<exists>rho'. apply_channel d Ks ws = Inr (d\<lparr>s_state := Some rho'\<rparr>)
     \<and> shape rho' = replicate (2 * num_wires d) 2
     \<and> (\<forall>idx. valid_index idx (replicate (2 * num_wires d) 2) \<longrightarrow>
          item rho' idx = kraus_conjugation (num_wires d) W Ks rho idx)
     \<and> get_kraus (ChannelOp Ks ws) = Matrices Ks
     \<and> get_kraus (Gate (hd Ks) ws) = Matrices [hd Ks]"
  using apply_channel_correct [OF assms] by simp

theorem apply_channel_kraus_conjugation_witness:
  "\<exists>rho'. apply_channel (fresh_device 1) [pauli_x] [wire 0] = Inr ((fresh_device 1)\<lparr>s_state := Some rho'\<rparr>)
     \<and> shape rho' = [2, 2] \<and> item rho' [1, 1] = 1 \<and> item rho' [0, 0] = 0"
proof -
  obtain T where T: "s_state (fresh_device 1) = Some T" "shape T = replicate (2 * 1) 2"
     "\<forall>idx. valid_index idx (replicate (2 * 1) 2) \<longrightarrow>
          item T idx = (if bits_index (take 1 idx) = 0 \<and> bits_index (drop 1 idx) = 0 then 1 else 0)"
    using state_fresh [of 1] by auto
  have nw: "num_wires (fresh_device 1) = 1" by (simp add: num_wires_fresh)
  have h1: "distinct [wire 0]" by simp
  have h2: "shape T = replicate (2 * num_wires (fresh_device 1)) 2" using T(2) nw by simp
  have h3: "[pauli_x] \<noteq> []" by simp
  have h4: "\<forall>K\<in>set [pauli_x]. shape K = [2 ^ length [wire 0], 2 ^ length [wire 0]]"
    by (simp add: pauli_x_items)
  have h5: "2 * num_wires (fresh_device 1) + 2 * length [wire 0] + 1 \<le> 52" using nw by simp
  from apply_channel_kraus_conjugation [OF mw1 h1 T(1) h2 h3 h4 h5]
  obtain rho' where r: "apply_channel (fresh_device 1) [pauli_x] [wire 0] = Inr ((fresh_device 1)\<lparr>s_state := Some rho'\<rparr>)"
    "shape rho' = replicate (2 * 1) 2"
    "\<forall>idx. valid_index idx (replicate (2 * 1) 2) \<longrightarrow>
          item rho' idx = kraus_conjugation 1 [0] [pauli_x] T idx"
    unfolding nw by blast
  from r(3) valid_22 kc1 [OF T(3)] have "item rho' [1, 1] = 1" "item rho' [0, 0] = 0" by simp_all
  with r(1,2) show ?thesis by (auto simp: numeral_2_eq_2)
qed

text \<open>
  Claim C1 as stated fails where the labels run out: on 23 wires a gate on
  three wires needs 53 labels, the label of the Kraus index is the empty
  slice, and the contraction raises.
\<close>

theorem apply_channel_23_wires_counterexample:
  "apply_channel (fresh_device 23) [toffoli] [wire 0, wire 1, wire 2] =
     Inl (ValueError ''einsum: operand dimensions do not match the subscripts'', fresh_device 23)"
proof -
  obtain T where "s_state (fresh_device 23) = Some T" using state_fresh [of 23] by auto
  from apply_channel_exhausted [OF mw23 this, of "[toffoli]"] show ?thesis
    by (simp add: num_wires_fresh toffoli_def)
qed

section \<open>The diagonal path\<close>

text \<open>
  Claim C8: for an operator that is diagonal in the computational basis,
  given by the vector of its eigenvalues on the target wires, the dispatcher
  takes the diagonal path, and the new state has at every index the entry
  of the old state times the eigenvalue of the row bits of the target wires
  and the conjugate of the eigenvalue of their column bits; no other axis
  enters. The device has at most 26 wires (it admits 23), the number of
  labels that the contraction has for the rows.
\<close>

theorem diagonal_fast_path:
  assumes "map_wires d ws = Inr W"
    and "s_state d = Some rho" and "shape rho = replicate (2 * num_wires d) 2"
    and "shape eigvals = [2 ^ length ws]"
    and "num_wires d \<le> 26"
  shows "get_kraus (DiagonalGate eigvals ws) = Eigvals eigvals
     \<and> (\<exists>rho'. apply_operation gi d (DiagonalGate eigvals ws) = Inr (d\<lparr>s_state := Some rho'\<rparr>)
          \<and> shape rho' = replicate (2 * num_wires d) 2
          \<and> (\<forall>idx. valid_index idx (replicate (2 * num_wires d) 2) \<longrightarrow>
               item rho' idx = diagonal_conjugation (num_wires d) W eigvals rho idx))"
  using apply_diagonal_unitary_correct [OF assms] by simp

theorem diagonal_fast_path_witness:
  "\<exists>rho'. apply_operation numpy_interface plus_device (DiagonalGate pauli_z_eigvals [wire 0])
       = Inr (plus_device\<lparr>s_state := Some rho'\<rparr>)
     \<and> item rho' [0, 0] = 1 / 2 \<and> item rho' [0, 1] = - 1 / 2
     \<and> item rho' [1, 0] = - 1 / 2 \<and> item rho' [1, 1] = 1 / 2"
proof -
  have h4: "shape pauli_z_eigvals = [2 ^ length [wire 0]]" by (simp add: pauli_z_eigvals_def vector_of_def)
  have h5: "num_wires plus_device \<le> 26" by (simp add: plus_device_facts)
  from diagonal_fast_path [OF plus_device_facts(2,3,4) h4 h5, where gi = numpy_interface]
  obtain rho' where r:
    "apply_operation numpy_interface plus_device (DiagonalGate pauli_z_eigvals [wire 0])
       = Inr (plus_device\<lparr>s_state := Some rho'\<rparr>)"
    "\<forall>idx. valid_index idx (replicate (2 * 1) 2) \<longrightarrow>
       item rho' idx = diagonal_conjugation 1 [0] pauli_z_eigvals (matrix_of [[1 / 2, 1 / 2], [1 / 2, 1 / 2]]) idx"
    unfolding plus_device_facts(1) by blast
  have dc: "diagonal_conjugation 1 [0] pauli_z_eigvals (matrix_of [[1 / 2, 1 / 2], [1 / 2, 1 / 2]]) [0, 0] = 1 / 2"
    "diagonal_conjugation 1 [0] pauli_z_eigvals (matrix_of [[1 / 2, 1 / 2], [1 / 2, 1 / 2]]) [0, 1] = - 1 / 2"
    "diagonal_conjugation 1 [0] pauli_z_eigvals (matrix_of [[1 / 2, 1 / 2], [1 / 2, 1 / 2]]) [1, 0] = - 1 / 2"
    "diagonal_conjugation 1 [0] pauli_z_eigvals (matrix_of [[1 / 2, 1 / 2], [1 / 2, 1 / 2]]) [1, 1] = 1 / 2"
    by (simp_all add: diagonal_conjugation_def sub_index_def bits_index_1 pauli_z_eigvals_def
          vector_of_def matrix_of_def)
  have v: "valid_index [0, 0] (replicate (2 * 1) 2)" "valid_index [0, 1] (replicate (2 * 1) 2)"
    "valid_index [1, 0] (replicate (2 * 1) 2)" "valid_index [1, 1] (replicate (2 * 1) 2)"
    by (simp_all add: numeral_2_eq_2)
  have "item rho' [0, 0] = 1 / 2" "item rho' [0, 1] = - 1 / 2"
      "item rho' [1, 0] = - 1 / 2" "item rho' [1, 1] = 1 / 2"
    using r(2) [rule_format, OF v(1)] r(2) [rule_format, OF v(2)] r(2) [rule_format, OF v(3)]
      r(2) [rule_format, OF v(4)] dc by simp_all
  with r(1) show ?thesis by blast
qed

section \<open>The analytic probabilities\<close>

text \<open>
  Claim C10: without a state tensor the analytic probabilities are \<open>None\<close>,
  nothing is raised and no array is returned; with a state tensor of the
  shape of the device they are an array, the absolute values of the real
  parts of the diagonal of the state read as a matrix: the whole diagonal
  when no wires are given, and for wires that the device maps to distinct
  positions \<open>dw\<close> the sums of the diagonal over the other wires.
\<close>

theorem analytic_probability_spec:
  "(s_state d = None \<longrightarrow> analytic_probability d ws = Inr None)
   \<and> (s_state d = Some rho \<and> shape rho = replicate (2 * num_wires d) 2 \<longrightarrow>
        analytic_probability d None =
          Inr (Some (map (\<lambda>i. \<bar>Re (matrix_entry (num_wires d) rho i i)\<bar>) [0..<2 ^ num_wires d]))
        \<and> (map_wires d ws' = Inr dw \<and> distinct dw \<longrightarrow>
            analytic_probability d (Some ws') =
              Inr (Some (map (\<lambda>j. \<bar>Re (\<Sum>t\<leftarrow>all_idx (replicate (num_wires d - length dw) 2).
                    matrix_entry (num_wires d) rho (marginal_index (num_wires d) dw j t)
                      (marginal_index (num_wires d) dw j t))\<bar>) [0..<2 ^ length dw]))))"
  using analytic_probability_None [of d ws]
    analytic_probability_correct(1) [where d = d and rho = rho]
    analytic_probability_correct(2) [where d = d and rho = rho and ws = ws' and dw = dw]
  by blast

theorem analytic_probability_spec_witness:
  "analytic_probability (bare_device [wire 0] None) None = Inr None
   \<and> analytic_probability plus_device None = Inr (Some [1 / 2, 1 / 2])
   \<and> analytic_probability plus_device (Some [wire 0]) = Inr (Some [1 / 2, 1 / 2])"
proof -
  have r22: "replicate 2 2 = [2::nat, 2]" by (simp add: numeral_2_eq_2)
  have me: "matrix_entry (Suc 0) (matrix_of [[1 / 2, 1 / 2], [1 / 2, 1 / 2]]) 0 0 = 1 / 2"
    "matrix_entry (Suc 0) (matrix_of [[1 / 2, 1 / 2], [1 / 2, 1 / 2]]) (Suc 0) (Suc 0) = 1 / 2"
    by (simp_all add: matrix_entry_def matrix_of_def r22)
  have mi: "marginal_index (Suc 0) [0] 0 [] = 0" "marginal_index (Suc 0) [0] (Suc 0) [] = Suc 0"
    by (simp_all add: marginal_index_def place_def)
  have a: "analytic_probability (bare_device [wire 0] None) None = Inr None"
    using analytic_probability_spec [of "bare_device [wire 0] None" None]
    by (simp add: bare_device_def)
  have l2: "[0..<2 ^ 1] = [0, Suc 0]" "[0..<2 ^ length [0::nat]] = [0, Suc 0]" by (simp_all add: upt_rec)
  from analytic_probability_spec [of plus_device None "matrix_of [[1 / 2, 1 / 2], [1 / 2, 1 / 2]]" "[wire 0]" "[0]"]
  have b: "analytic_probability plus_device None = Inr (Some [1 / 2, 1 / 2])"
    and c: "analytic_probability plus_device (Some [wire 0]) = Inr (Some [1 / 2, 1 / 2])"
    unfolding plus_device_facts(1) l2
    using plus_device_facts by (simp_all add: me mi)
  from a b c show ?thesis by blast
qed

section \<open>The order of state preparations\<close>

text \<open>
  Claim C3, as the code has it: the first loop of \<open>apply\<close> looks for
  \<open>StatePrep\<close> and \<open>BasisState\<close> only. If one of them stands at a position
  after the first, \<open>apply\<close> raises the \<open>DeviceError\<close> of the first such
  position, and the device is as it was; a \<open>QubitDensityMatrix\<close> is not
  among the operations the loop looks for, and a circuit with no
  \<open>StatePrep\<close> or \<open>BasisState\<close> after its first operation passes the check.
\<close>

theorem apply_order_check:
  "(0 < i \<and> i < length ops \<and> prep_name (ops ! i) \<noteq> None \<longrightarrow>
      (\<exists>j nm. 0 < j \<and> j \<le> i \<and> prep_name (ops ! j) = Some nm
         \<and> device_apply gi d ops rots = Inl (order_error nm, d)))
   \<and> prep_name (StatePrep v ws) = Some ''StatePrep''
   \<and> prep_name (BasisState b ws) = Some ''BasisState''
   \<and> prep_name (QubitDensityMatrix m ws) = None
   \<and> (list_all (\<lambda>op. prep_name op = None) (tl ops) \<longrightarrow> check_order 0 ops = None)"
proof -
  have "\<exists>j nm. 0 < j \<and> j \<le> i \<and> prep_name (ops ! j) = Some nm
         \<and> device_apply gi d ops rots = Inl (order_error nm, d)"
    if "0 < i" "i < length ops" "prep_name (ops ! i) \<noteq> None"
  proof -
    from check_order_first [of i ops 0] that obtain j nm where
      "j \<le> i" "0 < j" "prep_name (ops ! j) = Some nm" "check_order 0 ops = Some (order_error nm)"
      by auto
    then show ?thesis
      by (intro exI [of _ j] exI [of _ nm]) (simp add: device_apply_def raiseE_def)
  qed
  moreover have "check_order 0 ops = None" if "list_all (\<lambda>op. prep_name op = None) (tl ops)"
  proof (cases ops)
    case Nil
    then show ?thesis by simp
  next
    case (Cons op rest)
    with that check_order_none [of rest "Suc 0"] show ?thesis
      by (cases "prep_name op") simp_all
  qed
  ultimately show ?thesis by simp
qed

theorem apply_order_check_witness:
  "device_apply numpy_interface (fresh_device 1) [Gate pauli_x [wire 0], BasisState [1] [wire 0]] []
     = Inl (order_error ''BasisState'', fresh_device 1)
   \<and> check_order 0 [Gate pauli_x [wire 0], QubitDensityMatrix ket0 [wire 0]] = None"
proof -
  let ?ops = "[Gate pauli_x [wire 0], BasisState [1] [wire 0]]"
  from apply_order_check [of 1 ?ops numpy_interface "fresh_device 1" "[]"]
  obtain j nm where j: "0 < j" "j \<le> 1" "prep_name (?ops ! j) = Some nm"
    "device_apply numpy_interface (fresh_device 1) ?ops [] = Inl (order_error nm, fresh_device 1)"
    by auto
  from j(1,2) have "j = 1" by simp
  with j(3) have "nm = ''BasisState''" by simp
  with j(4) have a: "device_apply numpy_interface (fresh_device 1) ?ops []
     = Inl (order_error ''BasisState'', fresh_device 1)" by simp
  from apply_order_check [of 0 "[Gate pauli_x [wire 0], QubitDensityMatrix ket0 [wire 0]]"]
  have "check_order 0 [Gate pauli_x [wire 0], QubitDensityMatrix ket0 [wire 0]] = None"
    by simp
  with a show ?thesis by blast
qed

text \<open>
  Claim C3 as stated fails for \<open>QubitDensityMatrix\<close>: after a Pauli X on a
  device of one wire, \<open>apply\<close> accepts it, raises nothing, and the state is
  the prepared projector.
\<close>

theorem apply_density_matrix_second_counterexample:
  "(case device_apply numpy_interface (fresh_device 1)
           [Gate pauli_x [wire 0], QubitDensityMatrix ket0 [wire 0]] [] of
      Inl x \<Rightarrow> False
    | Inr d' \<Rightarrow> item (the (s_state d')) [0, 0] = 1 \<and> item (the (s_state d')) [1, 1] = 0)"
proof -
  from x_then_ket0 obtain d1 rho where
    a: "apply_channel (fresh_device 1) [pauli_x] [wire 0] = Inr d1"
    and b: "apply_density_matrix d1 ket0 [wire 0] = Inr (d1\<lparr>s_state := Some rho, s_pre_rotated_state := Some rho\<rparr>)"
    and re: "readout_err d1 = None"
    and i: "item rho [0, 0] = 1" "item rho [1, 1] = 0"
    by blast
  have ops: "apply_operations numpy_interface (fresh_device 1)
      [Gate pauli_x [wire 0], QubitDensityMatrix ket0 [wire 0]]
      = Inr (d1\<lparr>s_state := Some rho, s_pre_rotated_state := Some rho\<rparr>)"
    using a b by (simp add: use_tensordot_def numpy_interface_def)
  have co: "check_order 0 [Gate pauli_x [wire 0], QubitDensityMatrix ket0 [wire 0]] = None"
    by simp
  from device_apply_steps [OF co ops] re i show ?thesis
    by (simp add: truthy_def)
qed

section \<open>Snapshots\<close>

text \<open>
  Claim C6, as the code has it: without a debugger, or with one that is not
  active, a snapshot leaves the device as it is. With an active debugger, a
  snapshot that returns leaves the working tensor as it was before the
  snapshot, whatever the rotations of the measurement did, and sets the
  pre-rotation reference to that working tensor -- not to the value the
  reference had before the snapshot. A snapshot of a sample or of counts,
  which the device does not support, raises a \<open>DeviceError\<close> that names the
  class of the measurement.
\<close>

theorem snapshot_frame:
  "((s_debugger d = None \<or> (\<exists>dbg. s_debugger d = Some dbg \<and> \<not> active dbg)) \<longrightarrow>
       apply_operation gi d (Snapshot tag m) = Inr d)
   \<and> (s_debugger d = Some dbg \<and> active dbg \<and> apply_operation gi d (Snapshot tag m) = Inr d' \<longrightarrow>
       s_state d' = s_state d \<and> s_pre_rotated_state d' = s_state d)
   \<and> (s_debugger d = Some dbg \<and> active dbg \<and> s_state d = Some st
        \<and> shape st = replicate (2 * num_wires d) 2 \<and> (c = SampleMP \<or> c = CountsMP) \<longrightarrow>
       apply_operation gi d (Snapshot tag (MP c ws gates ev base rw)) =
         Inl (DeviceError (''Snapshots of '' @ type_repr c @ '' are not yet supported on default.mixed''), d))"
  using snapshot_inactive [of d gi tag m] snapshot_restores [of d dbg gi tag m d']
    snapshot_unsupported [of d dbg st c gi tag ws gates ev base rw]
  by blast

theorem snapshot_frame_witness:
  "apply_operation numpy_interface (fresh_device 1) (Snapshot None expval_rotated) = Inr (fresh_device 1)
   \<and> (\<exists>d'. apply_operation numpy_interface (debug_device 1) (Snapshot None expval_rotated) = Inr d'
         \<and> s_state d' = s_state (debug_device 1)
         \<and> s_pre_rotated_state d' = s_state (debug_device 1))
   \<and> apply_operation numpy_interface (debug_device 1) (Snapshot None sample_all) =
        Inl (DeviceError ''Snapshots of <class 'pennylane.measurements.sample.SampleMP'> are not yet supported on default.mixed'',
             debug_device 1)"
proof -
  let ?d = "debug_device 1"
  let ?dbg = "\<lparr>active = True, snapshots = []\<rparr>"
  from debug_device_facts(4) obtain T where T: "s_state ?d = Some T" "shape T = replicate (2 * 1) 2"
    by blast
  have dbg: "s_debugger ?d = Some ?dbg" "active ?dbg" using debug_device_facts(3) by simp_all
  have nw: "num_wires ?d = 1" by (rule debug_device_facts)
  have sh: "shape T = replicate (2 * num_wires ?d) 2" using T(2) nw by simp
  have nd: "s_debugger (fresh_device 1) = None" using fresh_device_eq [of 1] by auto
  from snapshot_frame [where d = "fresh_device 1" and gi = numpy_interface and tag = None
      and m = expval_rotated]
  have a: "apply_operation numpy_interface (fresh_device 1) (Snapshot None expval_rotated) = Inr (fresh_device 1)"
    using nd by blast
  from pauli_x_one_wire [OF debug_device_facts(1) T]
  obtain rho' where c1: "apply_channel ?d [pauli_x] [wire 0] = Inr (?d\<lparr>s_state := Some rho'\<rparr>)"
    and sr: "shape rho' = replicate (2 * 1) 2" by blast
  let ?d1 = "?d\<lparr>s_state := Some rho'\<rparr>"
  from reshape_matrix [OF sh] obtain dm where
    c2: "reshape T [2 ^ num_wires ?d, 2 ^ num_wires ?d] = Inr dm" by blast
  have c4: "(if ExpectationMP = ProbabilityMP \<or> ExpectationMP = ExpectationMP \<or> ExpectationMP = VarianceMP
          then apply_operations numpy_interface ?d [Gate pauli_x [wire 0]] else Inr ?d) = Inr ?d1"
    using c1 by (simp add: use_tensordot_def numpy_interface_def)
  have mw1: "map_wires ?d1 [wire 0] = Inr [0]" using debug_device_facts(1) by (simp add: map_wires_def)
  have nw1: "num_wires ?d1 = 1" using nw by (simp add: num_wires_def)
  from analytic_probability_correct(2) [of ?d1 rho' "[wire 0]" "[0]"] sr mw1 nw1
  obtain ps where ps: "analytic_probability ?d1 (Some [wire 0]) = Inr (Some ps)" "length ps = 2"
    by auto
  have c3: "snap_value ?d1 dm ExpectationMP (if [wire 0] = [] then wires ?d else [wire 0]) [1, - 1] None []
      = Inr (SnapScalar (\<Sum>(p, e)\<leftarrow>zip ps [1, - 1]. p * e))"
    using ps by (simp add: snap_value_def dot_def)
  from apply_snapshot_steps [OF dbg T(1) c2 c4 c3, of None]
  obtain d' where d': "apply_operation numpy_interface ?d (Snapshot None expval_rotated) = Inr d'"
    unfolding expval_rotated_def by blast
  from snapshot_frame [where d = ?d and dbg = ?dbg and gi = numpy_interface and tag = None
      and m = expval_rotated and d' = d'] dbg d'
  have b: "s_state d' = s_state ?d \<and> s_pre_rotated_state d' = s_state ?d" by blast
  from snapshot_frame [where d = ?d and dbg = ?dbg and st = T and c = SampleMP
      and gi = numpy_interface and tag = None and ws = "[]" and gates = "[]" and ev = "[]"
      and base = None and rw = "[]"] dbg T(1) sh
  have c: "apply_operation numpy_interface ?d (Snapshot None sample_all) =
        Inl (DeviceError ''Snapshots of <class 'pennylane.measurements.sample.SampleMP'> are not yet supported on default.mixed'', ?d)"
    by (simp add: sample_all_def type_repr_def class_name_def class_module_def)
  from a b c d' show ?thesis by blast
qed

text \<open>
  Claim C6 as stated fails for the pre-rotation reference: on a device of
  one wire with an active debugger, after a Pauli X the reference is still
  the state of the construction; a snapshot of the state then returns and
  leaves the reference changed, equal to the working tensor.
\<close>

theorem snapshot_reference_counterexample:
  "(case apply_operation numpy_interface (debug_device 1) (Gate pauli_x [wire 0]) of
      Inl x \<Rightarrow> False
    | Inr d1 \<Rightarrow>
        (case apply_operation numpy_interface d1 (Snapshot None state_mp) of
           Inl x \<Rightarrow> False
         | Inr d2 \<Rightarrow> item (the (s_pre_rotated_state d1)) [0, 0] = 1
                    \<and> item (the (s_pre_rotated_state d2)) [0, 0] = 0))"
proof -
  let ?d = "debug_device 1"
  let ?dbg = "\<lparr>active = True, snapshots = []\<rparr>"
  from debug_device_facts(4) obtain T where T: "s_state ?d = Some T" "s_pre_rotated_state ?d = Some T"
    "shape T = replicate (2 * 1) 2" "item T [0, 0] = 1" "item T [1, 1] = 0"
    by blast
  from pauli_x_one_wire [OF debug_device_facts(1) T(1,3)]
  obtain rho' where c1: "apply_channel ?d [pauli_x] [wire 0] = Inr (?d\<lparr>s_state := Some rho'\<rparr>)"
    and sr: "shape rho' = replicate (2 * 1) 2"
    and ir: "\<forall>a b. a < 2 \<and> b < 2 \<longrightarrow> item rho' [a, b] = item T [1 - a, 1 - b]" by blast
  let ?d1 = "?d\<lparr>s_state := Some rho'\<rparr>"
  have g: "apply_operation numpy_interface ?d (Gate pauli_x [wire 0]) = Inr ?d1"
    using c1 by (simp add: use_tensordot_def numpy_interface_def)
  have dbg: "s_debugger ?d1 = Some ?dbg" "active ?dbg" using debug_device_facts(3) by simp_all
  have nw1: "num_wires ?d1 = 1" using debug_device_facts(2) by (simp add: num_wires_def)
  have s: "s_state ?d1 = Some rho'" by simp
  have sh: "shape rho' = replicate (2 * num_wires ?d1) 2" using sr nw1 by simp
  from reshape_matrix [OF sh] obtain dm where
    c2: "reshape rho' [2 ^ num_wires ?d1, 2 ^ num_wires ?d1] = Inr dm"
    and sdm: "shape dm = [2 ^ num_wires ?d1, 2 ^ num_wires ?d1]" by blast
  have mw: "map_wires ?d1 (wires ?d1) = Inr [0]" using debug_device_facts(1) by (simp add: map_wires_def)
  have "\<exists>res. snap_value ?d1 dm StateMP (if ([]::label list) = [] then wires ?d1 else []) [] None [] = Inr res"
    using mw sdm nw1 by (simp add: snap_value_def reduce_dm_def)
  then obtain res where
    c3: "snap_value ?d1 dm StateMP (if ([]::label list) = [] then wires ?d1 else []) [] None [] = Inr res" ..
  have c4: "(if StateMP = ProbabilityMP \<or> StateMP = ExpectationMP \<or> StateMP = VarianceMP
          then apply_operations numpy_interface ?d1 [] else Inr ?d1) = Inr ?d1"
    by simp
  from apply_snapshot_steps [OF dbg s c2 c4 c3, of None]
  obtain d2 where d2: "apply_operation numpy_interface ?d1 (Snapshot None state_mp) = Inr d2"
    unfolding state_mp_def by blast
  from snapshot_restores [OF dbg d2] have r: "s_pre_rotated_state d2 = Some rho'" by simp
  have i1: "item (the (s_pre_rotated_state ?d1)) [0, 0] = 1" using T(2,4) by simp
  have i2: "item rho' [0, 0] = 0" using ir T(5) by simp
  from g d2 r i1 i2 show ?thesis by simp
qed

section \<open>The preparation of a basis state\<close>

text \<open>
  Claim C9: for wires of the device, each once, the preparation of a basis
  state raises a \<open>ValueError\<close> if a bit is not 0 or 1, or if there are not as
  many bits as wires. Otherwise the state tensor becomes the tensor that is
  1 at the diagonal position \<open>index\<close> of the state read as a matrix and 0
  elsewhere, \<open>index\<close> being the sum of \<open>bits[i] * 2^(N - 1 - device_wire[i])\<close>.
  After \<open>apply\<close> of the preparation, which stores the state as the
  pre-rotation reference, the density matrix over all the wires in their
  order is the projector on that basis state.
\<close>

theorem apply_basis_state_spec:
  assumes "map_wires d ws = Inr dw" and "distinct ws"
  shows "(\<not> list_all (\<lambda>b. b = 0 \<or> b = 1) bits \<longrightarrow>
        apply_basis_state d bits ws =
          Inl (ValueError ''BasisState parameter must consist of 0 or 1 integers.'', d))
     \<and> (list_all (\<lambda>b. b = 0 \<or> b = 1) bits \<and> length bits \<noteq> length ws \<longrightarrow>
        apply_basis_state d bits ws =
          Inl (ValueError ''BasisState parameter and wires must be of equal length.'', d))
     \<and> (list_all (\<lambda>b. b = 0 \<or> b = 1) bits \<and> length bits = length ws \<longrightarrow>
        (\<exists>rho'. apply_basis_state d bits ws = Inr (d\<lparr>s_state := Some rho'\<rparr>)
           \<and> shape rho' = replicate (2 * num_wires d) 2
           \<and> (\<forall>idx. valid_index idx (replicate (2 * num_wires d) 2) \<longrightarrow>
                item rho' idx =
                  (if bits_index (take (num_wires d) idx) = basis_index (num_wires d) dw bits
                      \<and> bits_index (drop (num_wires d) idx) = basis_index (num_wires d) dw bits
                   then 1 else 0)))
        \<and> (map_wires d ws' = Inr [0..<num_wires d] \<and> \<not> truthy (readout_err d) \<longrightarrow>
            (\<exists>d' M. device_apply gi d [BasisState bits ws] [] = Inr d'
               \<and> density_matrix d' ws' = Inr M \<and> shape M = [2 ^ num_wires d, 2 ^ num_wires d]
               \<and> (\<forall>i j. i < 2 ^ num_wires d \<and> j < 2 ^ num_wires d \<longrightarrow>
                    item M [i, j] =
                      (if i = basis_index (num_wires d) dw bits \<and> j = basis_index (num_wires d) dw bits
                       then 1 else 0)))))"
  using apply_basis_state_errors [OF assms(1), of bits]
    apply_basis_state_correct [OF assms, of bits]
    basis_state_round_trip [OF assms, of bits ws' gi]
  by blast

theorem apply_basis_state_spec_witness:
  "apply_basis_state (fresh_device 3) [1, 2, 0] [wire 0, wire 1, wire 2] =
      Inl (ValueError ''BasisState parameter must consist of 0 or 1 integers.'', fresh_device 3)
   \<and> apply_basis_state (fresh_device 3) [1, 0] [wire 0, wire 1, wire 2] =
      Inl (ValueError ''BasisState parameter and wires must be of equal length.'', fresh_device 3)
   \<and> basis_index 3 [0, 1, 2] [1, 0, 1] = 5
   \<and> (\<exists>d' M. device_apply numpy_interface (fresh_device 3)
                 [BasisState [1, 0, 1] [wire 0, wire 1, wire 2]] [] = Inr d'
         \<and> density_matrix d' [wire 0, wire 1, wire 2] = Inr M \<and> shape M = [8, 8]
         \<and> item M [5, 5] = 1 \<and> item M [5, 4] = 0 \<and> item M [0, 0] = 0 \<and> item M [7, 7] = 0)"
proof -
  let ?d = "fresh_device 3"
  let ?ws = "[wire 0, wire 1, wire 2]"
  have nw: "num_wires ?d = 3" by (simp add: num_wires_fresh)
  have mw: "map_wires ?d ?ws = Inr [0, 1, 2]"
    by (simp add: map_wires_def wires_fresh wire_def eval_nat_numeral)
  have mw': "map_wires ?d ?ws = Inr [0..<num_wires ?d]"
    unfolding nw mw by (simp add: eval_nat_numeral)
  have dws: "distinct ?ws" by (simp add: wire_def)
  have re: "\<not> truthy (readout_err ?d)"
    using fresh_device_eq [of 3] by (auto simp: truthy_def)
  have bi: "basis_index 3 [0, 1, 2] [1, 0, 1] = 5" by (simp add: basis_index_def)
  from apply_basis_state_spec [OF mw dws, of "[1, 2, 0]"]
  have a: "apply_basis_state ?d [1, 2, 0] ?ws =
      Inl (ValueError ''BasisState parameter must consist of 0 or 1 integers.'', ?d)" by simp
  from apply_basis_state_spec [OF mw dws, of "[1, 0]"]
  have b: "apply_basis_state ?d [1, 0] ?ws =
      Inl (ValueError ''BasisState parameter and wires must be of equal length.'', ?d)" by simp
  from apply_basis_state_spec [OF mw dws, of "[1, 0, 1]" ?ws numpy_interface] mw' re
  obtain d' M where c: "device_apply numpy_interface ?d [BasisState [1, 0, 1] ?ws] [] = Inr d'"
    "density_matrix d' ?ws = Inr M" "shape M = [2 ^ 3, 2 ^ 3]"
    "\<forall>i j. i < 2 ^ 3 \<and> j < 2 ^ 3 \<longrightarrow> item M [i, j] = (if i = 5 \<and> j = 5 then 1 else 0)"
    unfolding nw bi by auto
  from c(4) have "item M [5, 5] = 1" "item M [5, 4] = 0" "item M [0, 0] = 0" "item M [7, 7] = 0"
    by simp_all
  with a b bi c(1,2,3) show ?thesis by auto
qed

section \<open>The preparation of a density matrix on a part of the wires\<close>

text \<open>
  Claim C5 does not hold of the code. On a part of the wires, the
  preparation takes the reduced state of the other wires from
  \<open>density_matrix\<close>, which reads the pre-rotation reference and not the
  working tensor. What the preparation leaves behind -- the error raised, or
  the new working tensor and reference -- is therefore the same whatever the
  working tensor was: after an operation that changed the working tensor,
  the reduced state of the other wires is not kept, it is replaced by the
  one of the reference.
\<close>

theorem apply_density_matrix_stale_reference:
  "tensors_after (apply_operation gi (d\<lparr>s_state := a\<rparr>) (QubitDensityMatrix M ws))
   = tensors_after (apply_operation gi (d\<lparr>s_state := b\<rparr>) (QubitDensityMatrix M ws))"
  using apply_density_matrix_working_tensor [where d = d and a = a and M = M and ws = ws]
    apply_density_matrix_working_tensor [where d = d and a = b and M = M and ws = ws]
  by simp
end
